theory Spec2Isabelle
  imports Complex_Main "HOL-Library.Word"
begin

section \<open>The CIFAR-10 loader of \<^verbatim>\<open>tensorflow_cnn/load_cifar10.py\<close>\<close>

text \<open>
  The module reads pickled shards from a directory, turns each flat pixel buffer into a
  tensor of shape \<open>[count, height, width, channels]\<close>, merges the five training shards into
  arrays allocated beforehand, and encodes the class numbers as one-hot rows.

  Conventions of the embedding:
  \<^item> a Python exception is a value \<open>Inl e\<close> of the result type \<open>py_error + 'a\<close>;
  \<^item> a numpy array is the nested list of its elements in C order; a \<open>float64\<close> element is
    modelled by the exact rational it stands for (the claims below are about positions,
    shapes and the bounds 0 and 1, all of which \<open>b / 255.0\<close> keeps for a byte \<open>b\<close>);
  \<^item> a class number is an element of an \<open>int64\<close> array: a 64-bit word, whose value is its
    signed reading \<open>sint\<close>; arithmetic on it wraps around as numpy's does;
  \<^item> memory is not a resource of the model: an allocation never fails in it;
  \<^item> the directory of data files is a partial map from paths to file contents;
  \<^item> \<open>print\<close> is not modelled: it has no effect on any returned value;
  \<^item> a leading underscore of a Python name is written as the prefix \<open>priv_\<close>, and the
    local names \<open>begin\<close> and \<open>end\<close> as \<open>begin_i\<close> and \<open>end_i\<close>.
\<close>

subsection \<open>Errors, files and module constants\<close>

datatype py_error = IOError | UnpicklingError | KeyError | ValueError | IndexError | RuntimeError

text \<open>
  A pickled shard is a dictionary. The loader reads three keys of it: \<open>b'data'\<close>, the pixel
  buffer (an array, given here as its elements in C order), \<open>b'labels'\<close>, a list of class
  numbers, and \<open>b'label_names'\<close>. A key that is absent is \<open>None\<close>. The class numbers are
  given as the \<open>int64\<close> values that \<open>np.array\<close> makes of them and that the \<open>int64\<close> array
  of the training split stores; a list with a number outside the \<open>int64\<close> range is no
  value of this type.
\<close>

type_synonym int64 = "64 word"

record pickle =
  p_data :: "int list option"
  p_labels :: "int64 list option"
  p_label_names :: "string list option"

datatype stored = Corrupt | Pickled pickle

type_synonym filesystem = "string \<Rightarrow> stored option"

type_synonym image = "rat list list list"

definition DATA_PATH :: string where
  "DATA_PATH = ''cifar-10-batches-py/''"

definition img_size :: nat where
  "img_size = 32"

definition num_channels :: nat where
  "num_channels = 3"

definition img_size_flat :: nat where
  "img_size_flat = img_size * img_size * num_channels"

definition num_classes :: int where
  "num_classes = 10"

definition num_files_train :: nat where
  "num_files_train = 5"

definition images_per_file :: nat where
  "images_per_file = 10000"

definition num_images_train :: nat where
  "num_images_train = num_files_train * images_per_file"

subsection \<open>numpy operations the module uses\<close>

text \<open>\<open>np.eye(n, dtype=float)\<close>: the identity matrix; a negative size raises \<open>ValueError\<close>.\<close>

definition eye :: "int \<Rightarrow> py_error + rat list list" where
  "eye n =
     (if n < 0 then Inl ValueError
      else Inr (map (\<lambda>i. map (\<lambda>j. if i = j then 1 else 0) [0..<nat n]) [0..<nat n]))"

text \<open>
  \<open>m[ids]\<close> for an \<open>int64\<close> array \<open>ids\<close>: the rows of \<open>m\<close> at the given indices, each index
  read as the signed integer \<open>sint c\<close>. An index \<open>i\<close> with \<open>-len(m) \<le> i < 0\<close> counts from
  the end; any other index outside \<open>0 \<le> i < len(m)\<close> raises \<open>IndexError\<close>.
\<close>

definition take_rows :: "'a list \<Rightarrow> int64 list \<Rightarrow> py_error + 'a list" where
  "take_rows m ids =
     (let n = int (length m) in
      if list_all (\<lambda>c. - n \<le> sint c \<and> sint c < n) ids
      then Inr (map (\<lambda>c. m ! nat (if sint c < 0 then sint c + n else sint c)) ids)
      else Inl IndexError)"

text \<open>The larger of two \<open>int64\<close> values.\<close>

definition smax :: "int64 \<Rightarrow> int64 \<Rightarrow> int64" where
  "smax a b = (if sint b \<le> sint a then a else b)"

text \<open>\<open>np.max\<close> of an \<open>int64\<close> array: its largest element; \<open>ValueError\<close> on an empty array.\<close>

definition np_max :: "int64 list \<Rightarrow> py_error + int64" where
  "np_max xs = (case xs of [] \<Rightarrow> Inl ValueError | y # ys \<Rightarrow> Inr (fold smax ys y))"

text \<open>
  \<open>chunk k n xs\<close>: the first \<open>k\<close> consecutive blocks of \<open>n\<close> elements of \<open>xs\<close>. A reshape
  in C order is a nest of such cuts: no element changes its place in the flat order.
\<close>

fun chunk :: "nat \<Rightarrow> nat \<Rightarrow> 'a list \<Rightarrow> 'a list list" where
  "chunk 0 n xs = []"
| "chunk (Suc k) n xs = take n xs # chunk k n (drop n xs)"

text \<open>
  \<open>a.reshape([-1, c, h, w])\<close>: the first extent is the length divided by \<open>c * h * w\<close>; a
  length that is no multiple of \<open>c * h * w\<close> raises \<open>ValueError\<close>.
\<close>

definition reshape4 :: "nat \<Rightarrow> nat \<Rightarrow> nat \<Rightarrow> 'a list \<Rightarrow> py_error + 'a list list list list" where
  "reshape4 c h w xs =
     (if c * h * w = 0 \<or> length xs mod (c * h * w) \<noteq> 0 then Inl ValueError
      else Inr (map (\<lambda>blk. map (chunk h w) (chunk c (h * w) blk))
                  (chunk (length xs div (c * h * w)) (c * h * w) xs)))"

text \<open>
  \<open>a.transpose([0, 2, 3, 1])\<close> of an array of shape \<open>[count, c, h, w]\<close>: the element at
  \<open>[n, y, x, ch]\<close> of the result is the element at \<open>[n, ch, y, x]\<close> of \<open>a\<close>.
\<close>

definition transpose_0231 :: "nat \<Rightarrow> nat \<Rightarrow> nat \<Rightarrow> 'a list list list list \<Rightarrow> 'a list list list list" where
  "transpose_0231 c h w a =
     map (\<lambda>blk. map (\<lambda>y. map (\<lambda>x. map (\<lambda>ch. blk ! ch ! y ! x) [0..<c]) [0..<w]) [0..<h]) a"

text \<open>
  \<open>xs[begin:end] = vs\<close> for \<open>0 \<le> begin \<le> end\<close>: both bounds are clipped to the length of
  \<open>xs\<close>, and \<open>vs\<close> is broadcast to the clipped range, which needs \<open>vs\<close> to be as long
  as the range or to hold exactly one entry (then repeated over the range, also over an
  empty one); any other length raises \<open>ValueError\<close>.
\<close>

definition assign_slice :: "'a list \<Rightarrow> nat \<Rightarrow> nat \<Rightarrow> 'a list \<Rightarrow> py_error + 'a list" where
  "assign_slice xs begin_i end_i vs =
     (let b = min begin_i (length xs); e = min end_i (length xs); m = e - b in
      if length vs = m then Inr (take b xs @ vs @ drop e xs)
      else (case vs of
              [v] \<Rightarrow> Inr (take b xs @ replicate m v @ drop e xs)
            | _ \<Rightarrow> Inl ValueError))"

text \<open>\<open>str(n)\<close> for a natural number: its decimal digits.\<close>

fun str :: "nat \<Rightarrow> string" where
  "str n = (if n < 10 then [char_of (48 + n)] else str (n div 10) @ [char_of (48 + n mod 10)])"

subsection \<open>Private functions\<close>

text \<open>
  \<open>one_hot_encoded(class_numbers, num_classes=None)\<close>: when \<open>num_classes\<close> is \<open>None\<close> it is
  \<open>np.max(class_numbers) - 1\<close>, a subtraction of \<open>int64\<close> values; the result is
  \<open>np.eye(num_classes)[class_numbers]\<close>.
\<close>

definition one_hot_encoded :: "int64 list \<Rightarrow> int option \<Rightarrow> py_error + rat list list" where
  "one_hot_encoded class_numbers num_classes_opt =
     (case (case num_classes_opt of
              None \<Rightarrow> (case np_max class_numbers of Inl e \<Rightarrow> Inl e | Inr mx \<Rightarrow> Inr (sint (mx - 1)))
            | Some n \<Rightarrow> Inr n) of
        Inl e \<Rightarrow> Inl e
      | Inr n \<Rightarrow> (case eye n of Inl e \<Rightarrow> Inl e | Inr m \<Rightarrow> take_rows m class_numbers))"

text \<open>
  \<open>_unpickle(filename)\<close>: \<open>open\<close> raises \<open>IOError\<close> for a path that cannot be opened,
  \<open>cPickle.load\<close> raises \<open>UnpicklingError\<close> for contents that are no pickle.
\<close>

definition priv_unpickle :: "filesystem \<Rightarrow> string \<Rightarrow> py_error + pickle" where
  "priv_unpickle fs filename =
     (let file_path = DATA_PATH @ filename in
      case fs file_path of
        None \<Rightarrow> Inl IOError
      | Some Corrupt \<Rightarrow> Inl UnpicklingError
      | Some (Pickled dictionary) \<Rightarrow> Inr dictionary)"

text \<open>
  \<open>_convert_images(raw)\<close> reads the module globals \<open>num_channels\<close> and \<open>img_size\<close> when
  it is called; \<open>convert_images_with\<close> is its body with the two globals as arguments, and
  \<open>priv_convert_images\<close> the function at the values the module gives them.
\<close>

definition convert_images_with :: "nat \<Rightarrow> nat \<Rightarrow> int list \<Rightarrow> py_error + image list" where
  "convert_images_with nc sz raw =
     (let raw_float = map (\<lambda>b. rat_of_int b / 255) raw in
      case reshape4 nc sz sz raw_float of
        Inl e \<Rightarrow> Inl e
      | Inr images \<Rightarrow> Inr (transpose_0231 nc sz sz images))"

definition priv_convert_images :: "int list \<Rightarrow> py_error + image list" where
  "priv_convert_images raw = convert_images_with num_channels img_size raw"

text \<open>\<open>_load_data(filename)\<close>: a missing key of the dictionary raises \<open>KeyError\<close>.\<close>

definition priv_load_data :: "filesystem \<Rightarrow> string \<Rightarrow> py_error + (image list \<times> int64 list)" where
  "priv_load_data fs filename =
     (case priv_unpickle fs filename of
        Inl e \<Rightarrow> Inl e
      | Inr data \<Rightarrow>
          (case p_data data of
             None \<Rightarrow> Inl KeyError
           | Some raw_images \<Rightarrow>
               (case p_labels data of
                  None \<Rightarrow> Inl KeyError
                | Some cls \<Rightarrow>
                    (case priv_convert_images raw_images of
                       Inl e \<Rightarrow> Inl e
                     | Inr images \<Rightarrow> Inr (images, cls)))))"

subsection \<open>Public functions\<close>

definition load_class_names :: "filesystem \<Rightarrow> py_error + string list" where
  "load_class_names fs =
     (case priv_unpickle fs ''batches.meta'' of
        Inl e \<Rightarrow> Inl e
      | Inr d \<Rightarrow> (case p_label_names d of None \<Rightarrow> Inl KeyError | Some names \<Rightarrow> Inr names))"

text \<open>\<open>np.zeros(shape=[img_size, img_size, num_channels])\<close>: one image of the allocated array.\<close>

definition zero_image :: image where
  "zero_image = replicate img_size (replicate img_size (replicate num_channels 0))"

text \<open>The file name the loop builds for the number \<open>i\<close>: \<open>"data_batch_" + str(i + 1)\<close>.\<close>

definition batch_filename :: "nat \<Rightarrow> string" where
  "batch_filename i = ''data_batch_'' @ str (i + 1)"

text \<open>
  The loop of \<open>load_training_data\<close> over the file numbers still to read, with the two
  arrays and \<open>begin\<close> as its state. An exception ends the loop at once.
\<close>

fun train_loop :: "filesystem \<Rightarrow> nat list \<Rightarrow> image list \<Rightarrow> int64 list \<Rightarrow> nat
    \<Rightarrow> py_error + (image list \<times> int64 list)" where
  "train_loop fs [] images cls begin_i = Inr (images, cls)"
| "train_loop fs (i # rest) images cls begin_i =
     (case priv_load_data fs (batch_filename i) of
        Inl e \<Rightarrow> Inl e
      | Inr (images_batch, cls_batch) \<Rightarrow>
          (let num_images = length images_batch;
               end_i = begin_i + num_images in
           case assign_slice images begin_i end_i images_batch of
             Inl e \<Rightarrow> Inl e
           | Inr images' \<Rightarrow>
               (case assign_slice cls begin_i end_i cls_batch of
                  Inl e \<Rightarrow> Inl e
                | Inr cls' \<Rightarrow> train_loop fs rest images' cls' end_i)))"

definition load_training_data :: "filesystem \<Rightarrow> py_error + (image list \<times> int64 list \<times> rat list list)" where
  "load_training_data fs =
     (let images = replicate num_images_train zero_image;
          cls = replicate num_images_train (0::int64) in
      case train_loop fs [0..<num_files_train] images cls 0 of
        Inl e \<Rightarrow> Inl e
      | Inr (images', cls') \<Rightarrow>
          (case one_hot_encoded cls' (Some num_classes) of
             Inl e \<Rightarrow> Inl e
           | Inr labels \<Rightarrow> Inr (images', cls', labels)))"

text \<open>
  \<open>load_test_data()\<close>. Here \<open>cls\<close> is \<open>np.array(data[b'labels'])\<close> itself: for an empty
  list that array has the type \<open>float64\<close>, which numpy refuses as an index (\<open>IndexError\<close>).
\<close>

definition load_test_data :: "filesystem \<Rightarrow> py_error + (image list \<times> int64 list \<times> rat list list)" where
  "load_test_data fs =
     (case priv_load_data fs ''test_batch'' of
        Inl e \<Rightarrow> Inl e
      | Inr (images, cls) \<Rightarrow>
          (case (if cls = [] then Inl IndexError else one_hot_encoded cls (Some num_classes)) of
             Inl e \<Rightarrow> Inl e
           | Inr labels \<Rightarrow> Inr (images, cls, labels)))"

record split =
  s_images :: "image list"
  s_cls :: "int64 list"
  s_labels :: "rat list list"

record dataset =
  train :: split
  test :: split

text \<open>
  \<open>plot_functions.plot_images(images, class_names, cls_true)\<close> lives in a module outside
  this file; \<open>load_data\<close> takes it as an argument. It returns nothing or raises.
\<close>

type_synonym plotter = "image list \<Rightarrow> string list \<Rightarrow> int64 list \<Rightarrow> py_error + unit"

definition load_data :: "filesystem \<Rightarrow> plotter \<Rightarrow> bool \<Rightarrow> py_error + (string list \<times> dataset)" where
  "load_data fs plot_images show_example_images =
     (case load_training_data fs of
        Inl e \<Rightarrow> Inl e
      | Inr (images_train, cls_train, labels_train) \<Rightarrow>
          (case load_test_data fs of
             Inl e \<Rightarrow> Inl e
           | Inr (images_test, cls_test, labels_test) \<Rightarrow>
               (case load_class_names fs of
                  Inl e \<Rightarrow> Inl e
                | Inr class_names \<Rightarrow>
                    (let result =
                       (class_names,
                        \<lparr>train = \<lparr>s_images = images_train, s_cls = cls_train, s_labels = labels_train\<rparr>,
                         test = \<lparr>s_images = images_test, s_cls = cls_test, s_labels = labels_test\<rparr>\<rparr>)
                     in
                     if show_example_images
                     then (case plot_images (take 9 images_train) class_names (take 9 cls_train) of
                             Inl e \<Rightarrow> Inl e
                           | Inr u \<Rightarrow> Inr result)
                     else Inr result))))"

subsection \<open>Predicates of the specification\<close>

text \<open>An image has the axes \<open>[height, width, channels]\<close> with the given extents.\<close>

definition image_shape :: "nat \<Rightarrow> nat \<Rightarrow> nat \<Rightarrow> image \<Rightarrow> bool" where
  "image_shape h w c img =
     (length img = h \<and> list_all (\<lambda>row. length row = w \<and> list_all (\<lambda>px. length px = c) row) img)"

text \<open>Every value of an image lies between 0 and 1, bounds included.\<close>

definition pixels_in_unit :: "image \<Rightarrow> bool" where
  "pixels_in_unit img = list_all (list_all (list_all (\<lambda>v. 0 \<le> v \<and> v \<le> 1))) img"

text \<open>The one-hot row of length \<open>n\<close> with its 1 at position \<open>k\<close>.\<close>

definition basis_row :: "nat \<Rightarrow> nat \<Rightarrow> rat list" where
  "basis_row n k = map (\<lambda>j. if j = k then 1 else 0) [0..<n]"

text \<open>
  A shard as the data model has it: the pixel buffer holds bytes, its length is the number
  of labels times \<open>channels * height * width\<close>, and every label is a class number from 0 to
  \<open>num_classes - 1\<close>.
\<close>

definition is_byte :: "int \<Rightarrow> bool" where
  "is_byte b = (0 \<le> b \<and> b \<le> 255)"

definition valid_shard :: "pickle \<Rightarrow> bool" where
  "valid_shard d =
     (case p_data d of
        None \<Rightarrow> True
      | Some raw \<Rightarrow>
          list_all is_byte raw \<and>
          (case p_labels d of
             None \<Rightarrow> True
           | Some ls \<Rightarrow>
               length raw = length ls * img_size_flat \<and>
               list_all (\<lambda>c. 0 \<le> sint c \<and> sint c < num_classes) ls))"

text \<open>Every file of the given names that holds a pickle holds a valid shard.\<close>

definition valid_files :: "filesystem \<Rightarrow> string list \<Rightarrow> bool" where
  "valid_files fs names =
     list_all (\<lambda>name. case fs (DATA_PATH @ name) of
                          Some (Pickled d) \<Rightarrow> valid_shard d
                        | _ \<Rightarrow> True) names"

text \<open>
  The invariant of a split: the three arrays have one length, every image has the extents
  \<open>[32, 32, 3]\<close> and values between 0 and 1, every class number lies from 0 to 9, and row
  \<open>i\<close> of the labels has its 1 in the column \<open>cls[i]\<close> and 0 elsewhere.
\<close>

definition split_invariant :: "image list \<Rightarrow> int64 list \<Rightarrow> rat list list \<Rightarrow> bool" where
  "split_invariant images cls labels =
     (length images = length cls \<and> length cls = length labels
      \<and> list_all (image_shape 32 32 3) images
      \<and> list_all pixels_in_unit images
      \<and> list_all (\<lambda>i. 0 \<le> sint (cls ! i) \<and> sint (cls ! i) < 10
                        \<and> labels ! i = basis_row 10 (nat (sint (cls ! i)))) [0..<length cls])"

text \<open>
  The axis order of an image: \<open>img\<close> is image \<open>j\<close> of the channel-major buffer \<open>raw\<close> with
  the axes \<open>[height, width, channels]\<close>, that is, \<open>img[y][x][ch]\<close> is the byte of row \<open>y\<close> and
  column \<open>x\<close> in the plane \<open>ch\<close> of the block \<open>j\<close>, divided by 255.
\<close>

definition channel_last :: "int list \<Rightarrow> nat \<Rightarrow> image \<Rightarrow> bool" where
  "channel_last raw j img =
     list_all (\<lambda>y. list_all (\<lambda>x. list_all (\<lambda>ch.
         img ! y ! x ! ch
           = rat_of_int (raw ! (j * img_size_flat + ch * (img_size * img_size) + y * img_size + x))
               / 255)
       [0..<num_channels]) [0..<img_size]) [0..<img_size]"

text \<open>The pixel buffers of the files of the given names that hold a pickle with one.\<close>

definition shard_buffers :: "filesystem \<Rightarrow> string list \<Rightarrow> int list list" where
  "shard_buffers fs names =
     List.map_filter (\<lambda>name. case fs (DATA_PATH @ name) of
                                   Some (Pickled d) \<Rightarrow> p_data d
                                 | _ \<Rightarrow> None) names"

text \<open>
  An image of a merged array: the zero image of the allocation, or an image of one of the
  given buffers in the axis order above.
\<close>

definition from_shards :: "int list list \<Rightarrow> image \<Rightarrow> bool" where
  "from_shards raws img =
     (img = zero_image \<or>
      list_ex (\<lambda>raw. list_ex (\<lambda>j. channel_last raw j img) [0..<length raw div img_size_flat])
        raws)"

subsection \<open>Concrete inputs\<close>

text \<open>The pixel buffer of one image whose bytes all have the value \<open>b\<close>.\<close>

definition flat_image :: "int \<Rightarrow> int list" where
  "flat_image b = replicate img_size_flat b"

text \<open>The image whose values all are \<open>b / 255\<close>.\<close>

definition const_image :: "int \<Rightarrow> image" where
  "const_image b =
     replicate img_size (replicate img_size (replicate num_channels (rat_of_int b / 255)))"

text \<open>
  A stored shard with one image per entry of \<open>bytes\<close>, each filled with that byte, and
  the given list of labels.
\<close>

definition shard_of :: "int list \<Rightarrow> int64 list \<Rightarrow> stored" where
  "shard_of bytes ls =
     Pickled \<lparr>p_data = Some (concat (map flat_image bytes)), p_labels = Some ls,
              p_label_names = None\<rparr>"

text \<open>The ten class names of the data set.\<close>

definition cifar_names :: "string list" where
  "cifar_names = [''airplane'', ''automobile'', ''bird'', ''cat'', ''deer'',
                  ''dog'', ''frog'', ''horse'', ''ship'', ''truck'']"

text \<open>The metadata file with the ten class names.\<close>

definition meta_file :: stored where
  "meta_file =
     Pickled \<lparr>p_data = None, p_labels = None,
              p_label_names = Some cifar_names\<rparr>"

text \<open>
  A data directory whose first training shard holds 2 images and whose second holds 3; the
  other three training shards are empty, the test shard holds one image.
\<close>

definition fs_ab :: filesystem where
  "fs_ab =
     [DATA_PATH @ ''data_batch_1'' \<mapsto> shard_of [1, 2] [3, 4],
      DATA_PATH @ ''data_batch_2'' \<mapsto> shard_of [10, 20, 30] [5, 6, 7],
      DATA_PATH @ ''data_batch_3'' \<mapsto> shard_of [] [],
      DATA_PATH @ ''data_batch_4'' \<mapsto> shard_of [] [],
      DATA_PATH @ ''data_batch_5'' \<mapsto> shard_of [] [],
      DATA_PATH @ ''test_batch'' \<mapsto> shard_of [7] [1],
      DATA_PATH @ ''batches.meta'' \<mapsto> meta_file]"


text \<open>A visualization that raises.\<close>

definition failing_plot :: plotter where
  "failing_plot images class_names cls_true = Inl RuntimeError"




text \<open>A visualization that returns.\<close>

definition silent_plot :: plotter where
  "silent_plot images class_names cls_true = Inr ()"

text \<open>The directory \<open>fs_ab\<close> without its metadata file.\<close>

definition fs_nometa :: filesystem where
  "fs_nometa = fs_ab(DATA_PATH @ ''batches.meta'' := None)"


text \<open>
  The pixel buffer of one image, channel-major: byte \<open>i\<close> is \<open>i div 16\<close>, so that the three
  planes hold the values 0 to 63, 64 to 127 and 128 to 191, two rows of an image to a value
  and a half row to each.
\<close>

definition ramp_image :: "int list" where
  "ramp_image = map (\<lambda>i. int (i div 16)) [0..<3072]"

section \<open>Properties\<close>

subsection \<open>Cutting a buffer into blocks\<close>

lemma length_chunk: "length (chunk k n xs) = k"
  by (induction k arbitrary: xs) auto

lemma nth_chunk: "i < k \<Longrightarrow> chunk k n xs ! i = take n (drop (i * n) xs)"
proof (induction k arbitrary: xs i)
  case 0
  then show ?case by simp
next
  case (Suc k)
  show ?case
  proof (cases i)
    case 0
    then show ?thesis by simp
  next
    case (Suc j)
    with Suc.prems have "j < k" by simp
    from Suc.IH[OF this] Suc show ?thesis by (simp add: add.commute)
  qed
qed

lemma cell_bound: "x < w \<Longrightarrow> y < h \<Longrightarrow> y * w + x < h * (w::nat)"
proof -
  assume a: "x < w" "y < h"
  then have "y * w + x < Suc y * w" by simp
  also from a have "\<dots> \<le> h * w" by (intro mult_le_mono1) simp
  finally show ?thesis .
qed

lemma nth_reshape_block:
  assumes "ch < c" "y < h" "x < w" "c * (h * w) \<le> length B"
  shows "map (chunk h w) (chunk c (h * w) B) ! ch ! y ! x = B ! (ch * (h * w) + y * w + x)"
proof -
  have 1: "y * w + x < h * w" using assms cell_bound by blast
  have 2: "ch * (h * w) + (y * w + x) < c * (h * w)"
    using cell_bound[OF 1 assms(1)] by (simp add: add.commute mult.commute)
  have "map (chunk h w) (chunk c (h * w) B) ! ch = chunk h w (take (h * w) (drop (ch * (h * w)) B))"
    using assms(1) by (simp add: length_chunk nth_chunk)
  then have "map (chunk h w) (chunk c (h * w) B) ! ch ! y ! x
      = take w (drop (y * w) (take (h * w) (drop (ch * (h * w)) B))) ! x"
    using assms(2) by (simp add: nth_chunk)
  also have "\<dots> = B ! (ch * (h * w) + y * w + x)"
    using assms 1 2 by (simp add: add.assoc)
  finally show ?thesis .
qed

lemma convert_images_with_Inr:
  assumes "0 < nc * sz * sz" "length raw = count * (nc * sz * sz)"
  shows "convert_images_with nc sz raw =
     Inr (transpose_0231 nc sz sz
            (map (\<lambda>blk. map (chunk sz sz) (chunk nc (sz * sz) blk))
               (chunk count (nc * sz * sz) (map (\<lambda>b. rat_of_int b / 255) raw))))"
  using assms by (simp add: convert_images_with_def reshape4_def)

lemma convert_images_with_Inl:
  assumes "nc * sz * sz = 0 \<or> length raw mod (nc * sz * sz) \<noteq> 0"
  shows "convert_images_with nc sz raw = Inl ValueError"
  using assms by (auto simp add: convert_images_with_def reshape4_def)

lemma length_transpose_0231: "length (transpose_0231 c h w a) = length a"
  by (simp add: transpose_0231_def)

lemma image_shape_transpose_0231:
  "list_all (image_shape h w c) (transpose_0231 c h w a)"
  by (simp add: transpose_0231_def image_shape_def list_all_iff)

lemma nth_transpose_0231:
  "n < length a \<Longrightarrow> y < h \<Longrightarrow> x < w \<Longrightarrow> ch < c \<Longrightarrow>
     transpose_0231 c h w a ! n ! y ! x ! ch = a ! n ! ch ! y ! x"
  by (simp add: transpose_0231_def)

lemma convert_images_with_nth:
  assumes "length raw = count * (nc * sz * sz)"
    and "convert_images_with nc sz raw = Inr images"
    and "n < count" "y < sz" "x < sz" "ch < nc"
  shows "images ! n ! y ! x ! ch
           = rat_of_int (raw ! (n * (nc * sz * sz) + ch * (sz * sz) + y * sz + x)) / 255"
proof -
  let ?f = "\<lambda>b. rat_of_int b / 255"
  let ?q = "nc * sz * sz"
  have pos: "0 < ?q" using assms(3-6) by simp
  let ?a = "map (\<lambda>blk. map (chunk sz sz) (chunk nc (sz * sz) blk)) (chunk count ?q (map ?f raw))"
  have img: "images = transpose_0231 nc sz sz ?a"
    using convert_images_with_Inr[OF pos assms(1)] assms(2) by simp
  let ?B = "take ?q (drop (n * ?q) (map ?f raw))"
  have inner: "ch * (sz * sz) + y * sz + x < ?q"
    using cell_bound[OF cell_bound[OF assms(5,4)] assms(6)]
    by (simp add: add.commute mult.commute mult.left_commute add.left_commute)
  have "Suc n * ?q \<le> count * ?q" using assms(3) by (intro mult_le_mono1) simp
  then have fits: "n * ?q + ?q \<le> length raw" using assms(1) by simp
  then have lenB: "nc * (sz * sz) \<le> length ?B" by (simp add: mult.assoc)
  have "images ! n ! y ! x ! ch = ?a ! n ! ch ! y ! x"
    unfolding img using assms(3-6) by (simp add: nth_transpose_0231 length_chunk)
  also have "?a ! n = map (chunk sz sz) (chunk nc (sz * sz) ?B)"
    using assms(3) by (simp add: length_chunk nth_chunk)
  also have "\<dots> ! ch ! y ! x = ?B ! (ch * (sz * sz) + y * sz + x)"
    using nth_reshape_block[OF assms(6,4,5) lenB] .
  also have "\<dots> = ?f (raw ! (n * ?q + (ch * (sz * sz) + y * sz + x)))"
    using inner fits by simp
  finally show ?thesis by (simp add: add.assoc)
qed

lemma convert_images_with_length:
  assumes "length raw = count * (nc * sz * sz)" "0 < nc * sz * sz"
    and "convert_images_with nc sz raw = Inr images"
  shows "length images = count \<and> list_all (image_shape sz sz nc) images"
  using convert_images_with_Inr[OF assms(2,1)] assms(3)
  by (auto simp add: length_transpose_0231 length_chunk image_shape_transpose_0231)

lemma image_shape_nth:
  assumes "list_all (image_shape h w c) images" "n < length images"
  shows "length (images ! n) = h"
    and "y < h \<Longrightarrow> length (images ! n ! y) = w"
    and "y < h \<Longrightarrow> x < w \<Longrightarrow> length (images ! n ! y ! x) = c"
  using assms by (auto simp add: image_shape_def list_all_length)

lemma flat_index_bound:
  assumes "n < count" "y < sz" "x < sz" "ch < (nc::nat)"
  shows "n * (nc * sz * sz) + ch * (sz * sz) + y * sz + x < count * (nc * sz * sz)"
proof -
  have "ch * (sz * sz) + (y * sz + x) < nc * (sz * sz)"
    using cell_bound[OF cell_bound[OF assms(3,2)] assms(4)] by (simp add: add.commute)
  then have "n * (nc * sz * sz) + (ch * (sz * sz) + (y * sz + x)) < Suc n * (nc * sz * sz)"
    by (simp add: mult.assoc)
  also have "\<dots> \<le> count * (nc * sz * sz)" using assms(1) by (intro mult_le_mono1) simp
  finally show ?thesis by (simp add: add.assoc)
qed

lemma convert_images_with_unit:
  assumes len: "length raw = count * (nc * sz * sz)"
    and res: "convert_images_with nc sz raw = Inr images"
    and bytes: "list_all is_byte raw"
  shows "list_all pixels_in_unit images"
proof (cases "0 < nc * sz * sz")
  case False
  then show ?thesis using res by (simp add: convert_images_with_Inl)
next
  case pos: True
  note sh = convert_images_with_length[OF len pos res]
  have "0 \<le> images ! n ! y ! x ! ch \<and> images ! n ! y ! x ! ch \<le> 1"
    if "n < count" "y < sz" "x < sz" "ch < nc" for n y x ch
  proof -
    let ?i = "n * (nc * sz * sz) + ch * (sz * sz) + y * sz + x"
    have "?i < length raw" using flat_index_bound[OF that] len by simp
    with bytes have "0 \<le> raw ! ?i \<and> raw ! ?i \<le> 255" by (simp add: list_all_length is_byte_def)
    then show ?thesis using convert_images_with_nth[OF len res that] by simp
  qed
  then show ?thesis
    using sh image_shape_nth[of sz sz nc images]
    by (simp add: pixels_in_unit_def list_all_length)
qed

lemma convert_images_with_replicate:
  assumes "0 < nc * sz * sz"
  shows "convert_images_with nc sz (replicate (count * (nc * sz * sz)) b)
           = Inr (replicate count (replicate sz (replicate sz (replicate nc (rat_of_int b / 255)))))"
proof -
  let ?raw = "replicate (count * (nc * sz * sz)) b"
  have len: "length ?raw = count * (nc * sz * sz)" by simp
  obtain images where res: "convert_images_with nc sz ?raw = Inr images"
    using convert_images_with_Inr[OF assms len] by blast
  note sh = convert_images_with_length[OF len assms res]
  have val: "images ! n ! y ! x ! ch = rat_of_int b / 255"
    if "n < count" "y < sz" "x < sz" "ch < nc" for n y x ch
    using convert_images_with_nth[OF len res that] flat_index_bound[OF that] by simp
  have "images = replicate count (replicate sz (replicate sz (replicate nc (rat_of_int b / 255))))"
    using sh image_shape_nth[of sz sz nc images] val
    by (simp add: list_eq_iff_nth_eq)
  with res show ?thesis by simp
qed

lemma assign_slice_length:
  assumes "assign_slice xs b e vs = Inr ys" "b \<le> e"
  shows "length ys = length xs"
  using assms by (auto simp add: assign_slice_def Let_def split: if_splits list.splits)

lemma assign_slice_set:
  assumes "assign_slice xs b e vs = Inr ys"
  shows "set ys \<subseteq> set xs \<union> set vs"
  using assms
  by (auto simp add: assign_slice_def Let_def split: if_splits list.splits
      dest: in_set_takeD in_set_dropD)

lemma assign_slice_fits:
  assumes "b + length vs \<le> length xs"
  shows "assign_slice xs b (b + length vs) vs = Inr (take b xs @ vs @ drop (b + length vs) xs)"
  using assms by (simp add: assign_slice_def Let_def min_def)


subsection \<open>The label encoder\<close>

lemma sint_fold_smax: "sint (fold smax ys y) = Max (sint ` set (y # ys))"
proof (induction ys arbitrary: y)
  case Nil
  then show ?case by simp
next
  case (Cons a ys)
  have s: "sint (smax a y) = max (sint a) (sint y)" by (simp add: smax_def max_def)
  have "sint (fold smax (a # ys) y) = Max (insert (max (sint a) (sint y)) (sint ` set ys))"
    using Cons.IH[of "smax a y"] by (simp add: s)
  also have "\<dots> = Max (sint ` set (y # a # ys))"
  proof (cases "ys = []")
    case True
    then show ?thesis by (simp add: max.commute)
  next
    case False
    then have ne: "sint ` set ys \<noteq> {}" by simp
    have fin: "finite (sint ` set ys)" by simp
    show ?thesis
      by (simp add: Max_insert[OF fin ne] Max_insert[OF finite.insertI[OF fin]] max.assoc
          max.left_commute max.commute)
  qed
  finally show ?case .
qed

lemma np_max_Max: "xs \<noteq> [] \<Longrightarrow> \<exists>mx. np_max xs = Inr mx \<and> sint mx = Max (sint ` set xs)"
  by (cases xs) (simp_all add: np_max_def sint_fold_smax)

lemma eye_nth: "0 \<le> n \<Longrightarrow> eye n = Inr (map (basis_row (nat n)) [0..<nat n])"
  by (simp add: eye_def basis_row_def)

lemma wrap_index:
  assumes "- n \<le> i" "i < (n::int)"
  shows "(if i < 0 then i + n else i) = i mod n"
proof (cases "i < 0")
  case True
  with assms have "(i + n) mod n = i + n" by (intro mod_pos_pos_trivial) simp_all
  with True show ?thesis by simp
next
  case False
  with assms show ?thesis by simp
qed

lemma one_hot_encoded_Some:
  assumes "0 \<le> n"
  shows "one_hot_encoded ids (Some n) =
           (if list_all (\<lambda>c. - n \<le> sint c \<and> sint c < n) ids
            then Inr (map (\<lambda>c. basis_row (nat n) (nat (sint c mod n))) ids)
            else Inl IndexError)"
proof (cases "list_all (\<lambda>c. - n \<le> sint c \<and> sint c < n) ids")
  case False
  then show ?thesis using assms by (simp add: one_hot_encoded_def eye_nth take_rows_def)
next
  case True
  have "map (basis_row (nat n)) [0..<nat n] ! nat (if sint c < 0 then sint c + n else sint c)
          = basis_row (nat n) (nat (sint c mod n))" if "c \<in> set ids" for c
  proof -
    from that True have r: "- n \<le> sint c" "sint c < n" by (simp_all add: list_all_iff)
    then have "0 < n" by linarith
    then have "0 \<le> sint c mod n" "sint c mod n < n" by simp_all
    then have "nat (sint c mod n) < nat n" by linarith
    then show ?thesis unfolding wrap_index[OF r] by simp
  qed
  then have "map (\<lambda>c. map (basis_row (nat n)) [0..<nat n]
                            ! nat (if sint c < 0 then sint c + n else sint c)) ids
               = map (\<lambda>c. basis_row (nat n) (nat (sint c mod n))) ids"
    by simp
  with True show ?thesis
    using assms by (simp add: one_hot_encoded_def eye_nth take_rows_def)
qed

subsection \<open>The loop over the training shards\<close>

lemma train_loop_length:
  assumes "train_loop fs files images cls b = Inr (images', cls')"
  shows "length images' = length images \<and> length cls' = length cls"
  using assms
proof (induction files arbitrary: images cls b)
  case Nil
  then show ?case by simp
next
  case (Cons i rest)
  from Cons.prems obtain im cl images1 cls1 where
    ld: "priv_load_data fs (batch_filename i) = Inr (im, cl)"
    and a1: "assign_slice images b (b + length im) im = Inr images1"
    and a2: "assign_slice cls b (b + length im) cl = Inr cls1"
    and rec: "train_loop fs rest images1 cls1 (b + length im) = Inr (images', cls')"
    by (auto simp add: Let_def split: sum.splits prod.splits)
  from Cons.IH[OF rec] assign_slice_length[OF a1] assign_slice_length[OF a2]
  show ?case by simp
qed

lemma train_loop_pred:
  assumes "\<And>i im cl. i \<in> set files \<Longrightarrow> priv_load_data fs (batch_filename i) = Inr (im, cl)
             \<Longrightarrow> list_all P im"
    and "list_all P images"
    and "train_loop fs files images cls b = Inr (images', cls')"
  shows "list_all P images'"
  using assms
proof (induction files arbitrary: images cls b)
  case Nil
  then show ?case by simp
next
  case (Cons i rest)
  from Cons.prems(3) obtain im cl images1 cls1 where
    ld: "priv_load_data fs (batch_filename i) = Inr (im, cl)"
    and a1: "assign_slice images b (b + length im) im = Inr images1"
    and rec: "train_loop fs rest images1 cls1 (b + length im) = Inr (images', cls')"
    by (auto simp add: Let_def split: sum.splits prod.splits)
  have "list_all P im" using Cons.prems(1)[OF _ ld] by simp
  with Cons.prems(2) assign_slice_set[OF a1] have "list_all P images1"
    by (auto simp add: list_all_iff)
  show ?case
  proof (rule Cons.IH[OF _ \<open>list_all P images1\<close> rec])
    fix j im' cl'
    assume "j \<in> set rest" "priv_load_data fs (batch_filename j) = Inr (im', cl')"
    then show "list_all P im'" using Cons.prems(1)[of j im' cl'] by simp
  qed
qed

lemma train_loop_pred_cls:
  assumes "\<And>i im cl. i \<in> set files \<Longrightarrow> priv_load_data fs (batch_filename i) = Inr (im, cl)
             \<Longrightarrow> list_all Q cl"
    and "list_all Q cls"
    and "train_loop fs files images cls b = Inr (images', cls')"
  shows "list_all Q cls'"
  using assms
proof (induction files arbitrary: images cls b)
  case Nil
  then show ?case by simp
next
  case (Cons i rest)
  from Cons.prems(3) obtain im cl images1 cls1 where
    ld: "priv_load_data fs (batch_filename i) = Inr (im, cl)"
    and a2: "assign_slice cls b (b + length im) cl = Inr cls1"
    and rec: "train_loop fs rest images1 cls1 (b + length im) = Inr (images', cls')"
    by (auto simp add: Let_def split: sum.splits prod.splits)
  have "list_all Q cl" using Cons.prems(1)[OF _ ld] by simp
  with Cons.prems(2) assign_slice_set[OF a2] have q1: "list_all Q cls1"
    by (auto simp add: list_all_iff)
  show ?case
  proof (rule Cons.IH[OF _ q1 rec])
    fix j im' cl'
    assume "j \<in> set rest" "priv_load_data fs (batch_filename j) = Inr (im', cl')"
    then show "list_all Q cl'" using Cons.prems(1)[of j im' cl'] by simp
  qed
qed

lemma splice_take:
  assumes "b + length vs \<le> length xs"
  shows "take (b + length vs) (take b xs @ vs @ drop (b + length vs) xs) = take b xs @ vs"
proof -
  have "length (take b xs) = b" using assms by simp
  then show ?thesis by (simp add: take_append)
qed

lemma splice_drop:
  assumes "b + length vs \<le> length xs"
  shows "drop (b + length vs + t) (take b xs @ vs @ drop (b + length vs) xs)
           = drop (b + length vs + t) xs"
proof -
  have "length (take b xs) = b" using assms by simp
  then show ?thesis by (simp add: drop_append add.commute)
qed

lemma train_loop_prefix:
  assumes "map (\<lambda>i. priv_load_data fs (batch_filename i)) pre = map Inr bs"
    and "list_all (\<lambda>(im, cl). length cl = length im) bs"
    and "b + sum_list (map (\<lambda>p. length (fst p)) bs) \<le> length images"
    and "length cls = length images"
  shows "train_loop fs (pre @ rest) images cls b
           = train_loop fs rest
               (take b images @ concat (map fst bs)
                  @ drop (b + sum_list (map (\<lambda>p. length (fst p)) bs)) images)
               (take b cls @ concat (map snd bs)
                  @ drop (b + sum_list (map (\<lambda>p. length (fst p)) bs)) cls)
               (b + sum_list (map (\<lambda>p. length (fst p)) bs))"
  using assms
proof (induction pre arbitrary: bs images cls b)
  case Nil
  then show ?case by simp
next
  case (Cons i pre)
  from Cons.prems(1) obtain im cl bs' where
    bs: "bs = (im, cl) # bs'"
    and ld: "priv_load_data fs (batch_filename i) = Inr (im, cl)"
    and rest: "map (\<lambda>i. priv_load_data fs (batch_filename i)) pre = map Inr bs'"
    by (cases bs) auto
  let ?t = "sum_list (map (\<lambda>p. length (fst p)) bs')"
  from Cons.prems(2) bs have lc: "length cl = length im"
    and wf': "list_all (\<lambda>(im, cl). length cl = length im) bs'" by simp_all
  from Cons.prems(3) bs have fit: "b + length im + ?t \<le> length images" by simp
  let ?images1 = "take b images @ im @ drop (b + length im) images"
  let ?cls1 = "take b cls @ cl @ drop (b + length im) cls"
  have a1: "assign_slice images b (b + length im) im = Inr ?images1"
    using fit by (intro assign_slice_fits) simp
  have a2: "assign_slice cls b (b + length im) cl = Inr ?cls1"
    using fit lc Cons.prems(4) assign_slice_fits[of b cl cls] by simp
  have fit1: "(b + length im) + ?t \<le> length ?images1" using fit by simp
  have len1: "length ?cls1 = length ?images1" using fit lc Cons.prems(4) by simp
  have bl: "b + length im \<le> length images" "b + length im \<le> length cls"
    using fit Cons.prems(4) by simp_all
  have e1: "take (b + length im) ?images1 = take b images @ im"
    using bl by (intro splice_take)
  have e2: "drop (b + length im + ?t) ?images1 = drop (b + length im + ?t) images"
    using bl by (intro splice_drop)
  have e3: "take (b + length im) ?cls1 = take b cls @ cl"
    using bl splice_take[of b cl cls] by (simp add: lc)
  have e4: "drop (b + length im + ?t) ?cls1 = drop (b + length im + ?t) cls"
    using bl splice_drop[of b cl cls ?t] by (simp add: lc)
  have "train_loop fs ((i # pre) @ rest) images cls b
          = train_loop fs (pre @ rest) ?images1 ?cls1 (b + length im)"
    using ld a1 a2 by (simp add: Let_def)
  also have "\<dots> = train_loop fs rest
               (take (b + length im) ?images1 @ concat (map fst bs')
                  @ drop (b + length im + ?t) ?images1)
               (take (b + length im) ?cls1 @ concat (map snd bs')
                  @ drop (b + length im + ?t) ?cls1)
               (b + length im + ?t)"
    by (rule Cons.IH[OF rest wf' fit1 len1])
  also have "\<dots> = train_loop fs rest
               (take b images @ concat (map fst bs)
                  @ drop (b + sum_list (map (\<lambda>p. length (fst p)) bs)) images)
               (take b cls @ concat (map snd bs)
                  @ drop (b + sum_list (map (\<lambda>p. length (fst p)) bs)) cls)
               (b + sum_list (map (\<lambda>p. length (fst p)) bs))"
    unfolding e1 e2 e3 e4 by (simp add: bs add.assoc)
  finally show ?case .
qed

subsection \<open>What a loaded shard satisfies\<close>

lemma priv_load_data_InrD:
  assumes "priv_load_data fs name = Inr (im, cl)"
  shows "\<exists>d raw. fs (DATA_PATH @ name) = Some (Pickled d) \<and> p_data d = Some raw
           \<and> p_labels d = Some cl \<and> priv_convert_images raw = Inr im"
  using assms
  by (auto simp add: priv_load_data_def priv_unpickle_def Let_def
      split: option.splits stored.splits sum.splits)

lemma priv_convert_images_shape:
  assumes "priv_convert_images raw = Inr im"
  shows "list_all (image_shape 32 32 3) im \<and> length raw = length im * 3072"
proof -
  let ?q = "num_channels * img_size * img_size"
  have q: "?q = 3072" by (simp add: num_channels_def img_size_def)
  have res: "convert_images_with num_channels img_size raw = Inr im"
    using assms by (simp add: priv_convert_images_def)
  have m: "length raw mod ?q = 0"
    using res convert_images_with_Inl[of num_channels img_size raw] by auto
  then have len: "length raw = (length raw div ?q) * ?q"
    using div_mult_mod_eq[of "length raw" ?q] by simp
  from convert_images_with_length[OF len _ res] len show ?thesis
    by (simp add: num_channels_def img_size_def)
qed

lemma priv_convert_images_unit:
  assumes "priv_convert_images raw = Inr im" "list_all is_byte raw"
  shows "list_all pixels_in_unit im"
proof -
  have res: "convert_images_with num_channels img_size raw = Inr im"
    using assms by (simp add: priv_convert_images_def)
  have len: "length raw = length im * (num_channels * img_size * img_size)"
    using priv_convert_images_shape[OF assms(1)] by (simp add: num_channels_def img_size_def)
  show ?thesis using convert_images_with_unit[OF len res assms(2)] .
qed

lemma priv_load_data_valid:
  assumes "valid_files fs [name]" "priv_load_data fs name = Inr (im, cl)"
  shows "list_all (image_shape 32 32 3) im \<and> list_all pixels_in_unit im \<and> length im = length cl
       \<and> list_all (\<lambda>c. 0 \<le> sint c \<and> sint c < 10) cl"
proof -
  from priv_load_data_InrD[OF assms(2)] obtain d raw where
    d: "fs (DATA_PATH @ name) = Some (Pickled d)" "p_data d = Some raw"
    "p_labels d = Some cl" "priv_convert_images raw = Inr im"
    by blast
  from assms(1) d have v: "list_all is_byte raw" "length raw = length cl * img_size_flat"
    "list_all (\<lambda>c. 0 \<le> sint c \<and> sint c < 10) cl"
    by (simp_all add: valid_files_def valid_shard_def num_classes_def)
  from priv_convert_images_shape[OF d(4)] v(2) have "length im = length cl"
    by (simp add: img_size_flat_def img_size_def num_channels_def)
  with priv_convert_images_shape[OF d(4)] priv_convert_images_unit[OF d(4) v(1)] v(3)
  show ?thesis by simp
qed

lemma zero_image_ok: "image_shape 32 32 3 zero_image \<and> pixels_in_unit zero_image"
  by (simp add: zero_image_def image_shape_def pixels_in_unit_def list_all_iff
      img_size_def num_channels_def)

lemma one_hot_encoded_rows:
  assumes "one_hot_encoded cls (Some num_classes) = Inr labels"
  shows "length labels = length cls
       \<and> (\<forall>i<length cls. - 10 \<le> sint (cls ! i) \<and> sint (cls ! i) < 10
             \<and> labels ! i = basis_row 10 (nat (sint (cls ! i) mod 10)))"
proof -
  have r: "list_all (\<lambda>c. - 10 \<le> sint c \<and> sint c < 10) cls"
    and l: "labels = map (\<lambda>c. basis_row 10 (nat (sint c mod 10))) cls"
    using assms one_hot_encoded_Some[of 10 cls]
    by (auto simp add: num_classes_def split: if_splits)
  then show ?thesis by (simp add: list_all_length)
qed

lemma priv_convert_images_channel_last:
  assumes "priv_convert_images raw = Inr im" "j < length im"
  shows "channel_last raw j (im ! j)"
proof -
  have res: "convert_images_with num_channels img_size raw = Inr im"
    using assms(1) by (simp add: priv_convert_images_def)
  have len: "length raw = length im * (num_channels * img_size * img_size)"
    using priv_convert_images_shape[OF assms(1)] by (simp add: num_channels_def img_size_def)
  have "im ! j ! y ! x ! ch
          = rat_of_int (raw ! (j * img_size_flat + ch * (img_size * img_size) + y * img_size + x))
              / 255"
    if "y < img_size" "x < img_size" "ch < num_channels" for y x ch
    using convert_images_with_nth[OF len res assms(2) that]
    by (simp add: img_size_flat_def mult.commute mult.left_commute)
  then show ?thesis by (simp add: channel_last_def list_all_iff)
qed

subsection \<open>Shards of constant images\<close>

lemma chunk_append:
  assumes "length xs = k1 * n"
  shows "chunk (k1 + k2) n (xs @ ys) = chunk k1 n xs @ chunk k2 n ys"
  using assms
proof (induction k1 arbitrary: xs)
  case 0
  then show ?case by simp
next
  case (Suc k1)
  then have "length (drop n xs) = k1 * n" by simp
  from Suc.IH[OF this] Suc.prems show ?case by simp
qed

lemma convert_images_with_append:
  assumes "0 < nc * sz * sz"
    and "length r1 = c1 * (nc * sz * sz)" "length r2 = c2 * (nc * sz * sz)"
    and "convert_images_with nc sz r1 = Inr i1" "convert_images_with nc sz r2 = Inr i2"
  shows "convert_images_with nc sz (r1 @ r2) = Inr (i1 @ i2)"
proof -
  have len: "length (r1 @ r2) = (c1 + c2) * (nc * sz * sz)"
    using assms(2,3) by (simp add: add_mult_distrib)
  have l1: "length (map (\<lambda>b. rat_of_int b / 255) r1) = c1 * (nc * sz * sz)"
    using assms(2) by simp
  show ?thesis
    using assms(4,5)
    unfolding convert_images_with_Inr[OF assms(1) len]
      convert_images_with_Inr[OF assms(1,2)] convert_images_with_Inr[OF assms(1,3)]
    by (simp add: chunk_append[OF l1] transpose_0231_def)
qed

lemma length_flat_images:
  "length (concat (map flat_image bytes)) = length bytes * img_size_flat"
  by (induction bytes) (simp_all add: flat_image_def)

lemma img_size_flat_eq: "img_size_flat = num_channels * img_size * img_size"
  by (simp add: img_size_flat_def)

lemma priv_convert_images_flat:
  "priv_convert_images (concat (map flat_image bytes)) = Inr (map const_image bytes)"
proof (induction bytes)
  case Nil
  then show ?case
    by (simp add: priv_convert_images_def convert_images_with_def reshape4_def
        transpose_0231_def num_channels_def img_size_def)
next
  case (Cons b bytes)
  let ?q = "num_channels * img_size * img_size"
  have pos: "0 < ?q" by (simp add: num_channels_def img_size_def)
  have l1: "length (flat_image b) = 1 * ?q"
    by (simp add: flat_image_def img_size_flat_eq)
  have l2: "length (concat (map flat_image bytes)) = length bytes * ?q"
    using length_flat_images[of bytes] by (simp only: img_size_flat_eq)
  have one: "convert_images_with num_channels img_size (flat_image b) = Inr [const_image b]"
    using convert_images_with_replicate[OF pos, of 1 b]
    by (simp add: flat_image_def img_size_flat_eq const_image_def)
  from convert_images_with_append[OF pos l1 l2 one] Cons.IH
  show ?case by (simp add: priv_convert_images_def)
qed

lemma priv_load_data_shard_of:
  assumes "fs (DATA_PATH @ name) = Some (shard_of bytes ls)"
  shows "priv_load_data fs name = Inr (map const_image bytes, ls)"
  using assms priv_convert_images_flat[of bytes]
  by (simp add: priv_load_data_def priv_unpickle_def shard_of_def Let_def)

subsection \<open>The merged training arrays\<close>

lemma list_all_replicate: "list_all P (replicate n x) = (n = 0 \<or> P x)"
  by (auto simp add: list_all_iff)

lemma train_files: "[0..<num_files_train] = [0, 1, 2, 3, 4]"
  by (simp add: num_files_train_def upt_rec)

lemma batch_filenames:
  "batch_filename 0 = ''data_batch_1''"
  "batch_filename 1 = ''data_batch_2''"
  "batch_filename 2 = ''data_batch_3''"
  "batch_filename 3 = ''data_batch_4''"
  "batch_filename 4 = ''data_batch_5''"
  "batch_filename (Suc 0) = ''data_batch_2''"
  by code_simp+

lemma load_training_data_concat:
  assumes "map (\<lambda>i. priv_load_data fs (batch_filename i)) [0..<num_files_train] = map Inr bs"
    and "list_all (\<lambda>(im, cl). length cl = length im) bs"
    and "sum_list (map (\<lambda>p. length (fst p)) bs) \<le> num_images_train"
  shows "load_training_data fs =
     (case one_hot_encoded
             (concat (map snd bs)
                @ replicate (num_images_train - sum_list (map (\<lambda>p. length (fst p)) bs)) 0)
             (Some num_classes) of
        Inl e \<Rightarrow> Inl e
      | Inr labels \<Rightarrow>
          Inr (concat (map fst bs)
                 @ replicate (num_images_train - sum_list (map (\<lambda>p. length (fst p)) bs)) zero_image,
               concat (map snd bs)
                 @ replicate (num_images_train - sum_list (map (\<lambda>p. length (fst p)) bs)) 0,
               labels))"
proof -
  let ?t = "sum_list (map (\<lambda>p. length (fst p)) bs)"
  let ?images = "replicate num_images_train zero_image"
  let ?cls = "replicate num_images_train (0::int64)"
  have fit: "0 + ?t \<le> length ?images" using assms(3) by simp
  have "train_loop fs ([0..<num_files_train] @ []) ?images ?cls 0
          = train_loop fs [] (take 0 ?images @ concat (map fst bs) @ drop (0 + ?t) ?images)
              (take 0 ?cls @ concat (map snd bs) @ drop (0 + ?t) ?cls) (0 + ?t)"
    by (rule train_loop_prefix[OF assms(1,2) fit]) simp
  then have "train_loop fs [0..<num_files_train] ?images ?cls 0
               = Inr (concat (map fst bs) @ replicate (num_images_train - ?t) zero_image,
                      concat (map snd bs) @ replicate (num_images_train - ?t) 0)"
    by simp
  then show ?thesis by (simp add: load_training_data_def Let_def)
qed

lemma fs_ab_batches:
  "map (\<lambda>i. priv_load_data fs_ab (batch_filename i)) [0..<num_files_train]
     = map Inr [(map const_image [1, 2], [3, 4]), (map const_image [10, 20, 30], [5, 6, 7]),
                (map const_image [], []), (map const_image [], []), (map const_image [], [])]"
  unfolding train_files
  by (simp add: batch_filenames priv_load_data_shard_of fs_ab_def DATA_PATH_def)

lemma fs_ab_train:
  "load_training_data fs_ab
     = Inr (map const_image [1, 2, 10, 20, 30] @ replicate 49995 zero_image,
            [3, 4, 5, 6, 7] @ replicate 49995 0,
            map (basis_row 10) [3, 4, 5, 6, 7] @ replicate 49995 (basis_row 10 0))"
  using load_training_data_concat[OF fs_ab_batches]
  by (simp add: num_images_train_def num_files_train_def images_per_file_def
      num_classes_def one_hot_encoded_Some list_all_replicate)

lemma list_all_flat_images:
  "list_all is_byte (concat (map flat_image bytes)) = list_all is_byte bytes"
  by (auto simp add: list_all_iff flat_image_def img_size_flat_def img_size_def num_channels_def)

lemma valid_shard_of_iff:
  "valid_shard \<lparr>p_data = Some (concat (map flat_image bytes)), p_labels = Some ls,
                 p_label_names = names\<rparr>
     = (list_all is_byte bytes \<and> length bytes = length ls
        \<and> list_all (\<lambda>c. 0 \<le> sint c \<and> sint c < num_classes) ls)"
  by (simp add: valid_shard_def list_all_flat_images length_flat_images
      img_size_flat_def img_size_def num_channels_def)

lemma valid_shard_of_case:
  "(case shard_of bytes ls of Corrupt \<Rightarrow> True | Pickled d \<Rightarrow> valid_shard d)
     = (list_all is_byte bytes \<and> length bytes = length ls
        \<and> list_all (\<lambda>c. 0 \<le> sint c \<and> sint c < num_classes) ls)"
  by (simp add: shard_of_def valid_shard_of_iff)

lemma valid_files_fs_ab:
  "valid_files fs_ab (''test_batch'' # map batch_filename [0..<num_files_train])"
  unfolding train_files
  by (simp add: valid_files_def batch_filenames fs_ab_def DATA_PATH_def
      meta_file_def valid_shard_of_case valid_shard_def is_byte_def num_classes_def)

lemma fs_ab_test:
  "load_test_data fs_ab = Inr ([const_image 7], [1], [basis_row 10 1])"
proof -
  have "priv_load_data fs_ab ''test_batch'' = Inr (map const_image [7], [1])"
    by (rule priv_load_data_shard_of) (simp add: fs_ab_def DATA_PATH_def)
  then show ?thesis
    by (simp add: load_test_data_def num_classes_def one_hot_encoded_Some)
qed

lemma load_training_data_lengths:
  assumes "load_training_data fs = Inr (images, cls, labels)"
  shows "length images = 50000 \<and> length cls = 50000 \<and> length labels = 50000"
proof -
  from assms obtain
    tl: "train_loop fs [0..<num_files_train] (replicate num_images_train zero_image)
           (replicate num_images_train 0) 0 = Inr (images, cls)"
    and oh: "one_hot_encoded cls (Some num_classes) = Inr labels"
    by (auto simp add: load_training_data_def Let_def split: sum.splits prod.splits)
  from train_loop_length[OF tl] one_hot_encoded_rows[OF oh] show ?thesis
    by (simp add: num_images_train_def num_files_train_def images_per_file_def)
qed

lemma concat_slice:
  assumes "k < length xss"
  shows "take (length (xss ! k)) (drop (sum_list (map length (take k xss))) (concat xss @ ys))
           = xss ! k"
  using assms
proof (induction xss arbitrary: k)
  case Nil
  then show ?case by simp
next
  case (Cons xs xss)
  show ?case
  proof (cases k)
    case 0
    then show ?thesis by simp
  next
    case (Suc j)
    with Cons.prems have "j < length xss" by simp
    from Cons.IH[OF this] Suc show ?thesis by simp
  qed
qed

lemma load_training_data_merged:
  assumes "map (\<lambda>i. priv_load_data fs (batch_filename i)) [0..<num_files_train] = map Inr bs"
    and "list_all (\<lambda>(im, cl). length cl = length im
            \<and> list_all (\<lambda>c. - num_classes \<le> sint c \<and> sint c < num_classes) cl) bs"
    and "sum_list (map (\<lambda>p. length (fst p)) bs) \<le> num_images_train"
  shows "load_training_data fs =
     Inr (concat (map fst bs)
            @ replicate (num_images_train - sum_list (map (\<lambda>p. length (fst p)) bs)) zero_image,
          concat (map snd bs)
            @ replicate (num_images_train - sum_list (map (\<lambda>p. length (fst p)) bs)) 0,
          map (\<lambda>c. basis_row 10 (nat (sint c mod 10)))
            (concat (map snd bs)
               @ replicate (num_images_train - sum_list (map (\<lambda>p. length (fst p)) bs)) 0))"
proof -
  have a2: "list_all (\<lambda>(im, cl). length cl = length im) bs"
    using assms(2) by (auto simp add: list_all_iff)
  have "list_all (\<lambda>c. - 10 \<le> sint c \<and> sint c < 10) (concat (map snd bs))"
    using assms(2) by (fastforce simp add: list_all_iff num_classes_def)
  then show ?thesis
    unfolding load_training_data_concat[OF assms(1) a2 assms(3)]
    by (simp add: one_hot_encoded_Some num_classes_def list_all_replicate)
qed








lemma fs_ab_names: "load_class_names fs_ab = Inr cifar_names"
  by (simp add: load_class_names_def priv_unpickle_def fs_ab_def DATA_PATH_def meta_file_def)

subsection \<open>The axis order of loaded images\<close>

lemma set_shard_buffers:
  "set (shard_buffers fs names)
     = {raw. \<exists>name\<in>set names. \<exists>d. fs (DATA_PATH @ name) = Some (Pickled d) \<and> p_data d = Some raw}"
proof (induction names)
  case Nil
  then show ?case by (simp add: shard_buffers_def)
next
  case (Cons name names)
  then show ?case
    by (auto simp add: shard_buffers_def split: option.splits stored.splits)
qed

lemma loaded_from_shards:
  assumes "priv_load_data fs name = Inr (im, cl)" "name \<in> set names"
  shows "list_all (from_shards (shard_buffers fs names)) im"
proof -
  from priv_load_data_InrD[OF assms(1)] obtain d raw where
    d: "fs (DATA_PATH @ name) = Some (Pickled d)" "p_data d = Some raw"
    and conv: "priv_convert_images raw = Inr im"
    by blast
  from d assms(2) have mem: "raw \<in> set (shard_buffers fs names)"
    unfolding set_shard_buffers by blast
  have cnt: "length raw div img_size_flat = length im"
    using priv_convert_images_shape[OF conv]
    by (simp add: img_size_flat_def img_size_def num_channels_def)
  have "from_shards (shard_buffers fs names) (im ! j)" if "j < length im" for j
    using priv_convert_images_channel_last[OF conv that] mem that cnt
    by (auto simp add: from_shards_def list_ex_iff)
  then show ?thesis by (simp add: list_all_length)
qed

lemma loaded_test_buffer:
  assumes "priv_load_data fs name = Inr (im, cl)"
  shows "list_all (\<lambda>raw. list_all (\<lambda>j. channel_last raw j (im ! j)) [0..<length im])
           (shard_buffers fs [name])"
proof -
  from priv_load_data_InrD[OF assms] obtain d raw where
    d: "fs (DATA_PATH @ name) = Some (Pickled d)" "p_data d = Some raw"
    and conv: "priv_convert_images raw = Inr im"
    by blast
  from d have "shard_buffers fs [name] = [raw]" by (simp add: shard_buffers_def)
  then show ?thesis
    using priv_convert_images_channel_last[OF conv] by (simp add: list_all_iff)
qed


text \<open>
  The body of \<open>_convert_images\<close> at one channel and images of 2 by 2, values the module
  never gives its globals: there the buffer \<open>[0, 128, 255, 64]\<close> is one image in row-major
  order, each pixel a list of its one channel.
\<close>

lemma convert_images_with_2x2x1:
  "convert_images_with 1 2 [0, 128, 255, 64]
     = Inr [[[[0 / 255], [128 / 255]], [[255 / 255], [64 / 255]]]]"
  by (simp add: convert_images_with_def reshape4_def transpose_0231_def numeral_2_eq_2 upt_rec)

section \<open>Claims\<close>

text \<open>
  C4. For a pixel buffer of \<open>count * channels * height * width\<close> bytes,
  \<open>_convert_images\<close> returns an array of shape \<open>[count, 32, 32, 3]\<close> whose values lie
  between 0 and 1, and whose value at \<open>[n, y, x, ch]\<close> is the byte at the flat position
  \<open>n * 3072 + ch * 1024 + y * 32 + x\<close> divided by 255: the buffer is divided by 255, cut
  into \<open>[count, channels, height, width]\<close> in its own order, and the channel axis is moved
  last.
\<close>

theorem convert_images_shape_range_layout:
  assumes "length raw = count * (num_channels * img_size * img_size)"
    and "list_all is_byte raw"
  shows "\<exists>images. priv_convert_images raw = Inr images
           \<and> length images = count
           \<and> list_all (image_shape 32 32 3) images
           \<and> list_all pixels_in_unit images
           \<and> (\<forall>n<count. \<forall>y<32. \<forall>x<32. \<forall>ch<3.
                 images ! n ! y ! x ! ch
                   = rat_of_int (raw ! (n * 3072 + ch * 1024 + y * 32 + x)) / 255)"
proof -
  have pos: "0 < num_channels * img_size * img_size"
    by (simp add: num_channels_def img_size_def)
  obtain images where res: "convert_images_with num_channels img_size raw = Inr images"
    using convert_images_with_Inr[OF pos assms(1)] by blast
  have sh: "length images = count \<and> list_all (image_shape 32 32 3) images"
    using convert_images_with_length[OF assms(1) pos res]
    by (simp add: num_channels_def img_size_def)
  have rng: "list_all pixels_in_unit images"
    using convert_images_with_unit[OF assms(1) res assms(2)] .
  have val: "images ! n ! y ! x ! ch = rat_of_int (raw ! (n * 3072 + ch * 1024 + y * 32 + x)) / 255"
    if "n < count" "y < 32" "x < 32" "ch < 3" for n y x ch
    using convert_images_with_nth[OF assms(1) res, of n y x ch] that
    by (simp add: num_channels_def img_size_def)
  show ?thesis
    using res sh rng val by (simp add: priv_convert_images_def)
qed

theorem convert_images_shape_range_layout_witness:
  "length (replicate 3072 (255::int)) = 1 * (num_channels * img_size * img_size)
   \<and> list_all is_byte (replicate 3072 255)
   \<and> (\<exists>images. priv_convert_images (replicate 3072 255) = Inr images
         \<and> length images = 1
         \<and> list_all (image_shape 32 32 3) images
         \<and> list_all pixels_in_unit images
         \<and> images ! 0 ! 31 ! 31 ! 2 = 1)"
proof -
  have h1: "length (replicate 3072 (255::int)) = 1 * (num_channels * img_size * img_size)"
    by (simp add: num_channels_def img_size_def)
  have h2: "list_all is_byte (replicate 3072 255)"
    by (simp add: list_all_iff is_byte_def)
  from convert_images_shape_range_layout[OF h1 h2]
  obtain images where r: "priv_convert_images (replicate 3072 255) = Inr images"
    "length images = 1" "list_all (image_shape 32 32 3) images" "list_all pixels_in_unit images"
    "\<forall>n<1. \<forall>y<32. \<forall>x<32. \<forall>ch<3.
       images ! n ! y ! x ! ch
         = rat_of_int (replicate 3072 255 ! (n * 3072 + ch * 1024 + y * 32 + x)) / 255"
    by blast
  from r(5) have "images ! 0 ! 31 ! 31 ! 2 = rat_of_int (replicate 3072 255 ! (0 * 3072 + 2 * 1024 + 31 * 32 + 31)) / 255"
    by simp
  then have "images ! 0 ! 31 ! 31 ! 2 = 1" by simp
  with r h1 h2 show ?thesis by blast
qed

text \<open>
  C5. The module fixes 3 channels and images of 32 by 32. For the pixel buffer of one image
  (3072 entries, channel-major) \<open>_convert_images\<close> returns one image of 32 rows of 32 pixels
  in row-major, channel-last order: the pixel of row \<open>y\<close> and column \<open>x\<close> holds the entries
  \<open>y * 32 + x\<close> of the three planes, each divided by 255.
\<close>

theorem convert_images_one_image:
  assumes "length raw = 3072"
  shows "\<exists>img. priv_convert_images raw = Inr [img]
           \<and> image_shape 32 32 3 img
           \<and> (\<forall>y<32. \<forall>x<32.
                 img ! y ! x = [rat_of_int (raw ! (y * 32 + x)) / 255,
                                rat_of_int (raw ! (1024 + y * 32 + x)) / 255,
                                rat_of_int (raw ! (2048 + y * 32 + x)) / 255])"
proof -
  have len: "length raw = 1 * (num_channels * img_size * img_size)"
    using assms by (simp add: num_channels_def img_size_def)
  have pos: "0 < num_channels * img_size * img_size"
    by (simp add: num_channels_def img_size_def)
  obtain images where res: "convert_images_with num_channels img_size raw = Inr images"
    using convert_images_with_Inr[OF pos len] by blast
  note sh = convert_images_with_length[OF len pos res]
  then obtain img where im: "images = [img]"
    by (cases images) auto
  from sh im have shp: "image_shape 32 32 3 img"
    by (simp add: num_channels_def img_size_def)
  have val: "img ! y ! x ! ch = rat_of_int (raw ! (ch * 1024 + y * 32 + x)) / 255"
    if "y < 32" "x < 32" "ch < 3" for y x ch
    using convert_images_with_nth[OF len res, of 0 y x ch] that im
    by (simp add: num_channels_def img_size_def)
  have "img ! y ! x = [rat_of_int (raw ! (y * 32 + x)) / 255,
                       rat_of_int (raw ! (1024 + y * 32 + x)) / 255,
                       rat_of_int (raw ! (2048 + y * 32 + x)) / 255]"
    if "y < 32" "x < 32" for y x
  proof -
    have l3: "length (img ! y ! x) = 3"
      using shp that by (simp add: image_shape_def list_all_length)
    show ?thesis
      using val[OF that, of 0] val[OF that, of 1] val[OF that, of 2] l3
      by (simp add: list_eq_iff_nth_eq less_Suc_eq numeral_3_eq_3 numeral_2_eq_2)
  qed
  with res im shp show ?thesis by (simp add: priv_convert_images_def)
qed

theorem convert_images_one_image_witness:
  "length ramp_image = 3072
   \<and> (\<exists>img. priv_convert_images ramp_image = Inr [img]
         \<and> image_shape 32 32 3 img
         \<and> img ! 0 ! 0 = [0, 64 / 255, 128 / 255]
         \<and> img ! 0 ! 16 = [1 / 255, 65 / 255, 129 / 255]
         \<and> img ! 1 ! 0 = [2 / 255, 66 / 255, 130 / 255]
         \<and> img ! 31 ! 31 = [63 / 255, 127 / 255, 191 / 255])"
proof -
  have l: "length ramp_image = 3072" by (simp add: ramp_image_def)
  from convert_images_one_image[OF l] obtain img where
    r: "priv_convert_images ramp_image = Inr [img]" "image_shape 32 32 3 img"
    and v: "\<forall>y<32. \<forall>x<32.
                 img ! y ! x = [rat_of_int (ramp_image ! (y * 32 + x)) / 255,
                                rat_of_int (ramp_image ! (1024 + y * 32 + x)) / 255,
                                rat_of_int (ramp_image ! (2048 + y * 32 + x)) / 255]"
    by blast
  from v[rule_format, of 0 0] have a: "img ! 0 ! 0 = [0, 64 / 255, 128 / 255]"
    by (simp add: ramp_image_def)
  from v[rule_format, of 0 16] have b: "img ! 0 ! 16 = [1 / 255, 65 / 255, 129 / 255]"
    by (simp add: ramp_image_def)
  from v[rule_format, of 1 0] have c: "img ! 1 ! 0 = [2 / 255, 66 / 255, 130 / 255]"
    by (simp add: ramp_image_def)
  from v[rule_format, of 31 31] have d: "img ! 31 ! 31 = [63 / 255, 127 / 255, 191 / 255]"
    by (simp add: ramp_image_def)
  from l r a b c d show ?thesis by blast
qed

text \<open>
  The buffer \<open>[0, 128, 255, 64]\<close> of a 2 by 2 image of one channel is no whole number of
  images of \<open>3 * 32 * 32\<close> entries: the reshape refuses it.
\<close>

theorem convert_images_four_bytes_counterexample:
  "priv_convert_images [0, 128, 255, 64] = Inl ValueError"
  by (simp add: priv_convert_images_def convert_images_with_Inl num_channels_def img_size_def)

text \<open>
  C2. For a class count \<open>n \<ge> 0\<close> and class numbers of an \<open>int64\<close> array, \<open>one_hot_encoded\<close>
  raises \<open>IndexError\<close> when some class number is \<open>\<ge> n\<close> or \<open>< -n\<close>. When every class number
  \<open>c\<close> has \<open>-n \<le> c < n\<close> the call returns, and row \<open>k\<close> is the one-hot row of
  \<open>ids[k] mod n\<close>: a class number from \<open>-n\<close> to \<open>-1\<close> indexes the identity matrix from its
  end, as numpy indexing does.
\<close>

theorem one_hot_encoded_index_range:
  assumes "0 \<le> n"
  shows "((\<exists>c\<in>set ids. n \<le> sint c \<or> sint c < - n) \<longrightarrow>
            one_hot_encoded ids (Some n) = Inl IndexError)
       \<and> ((\<forall>c\<in>set ids. - n \<le> sint c \<and> sint c < n) \<longrightarrow>
            one_hot_encoded ids (Some n)
              = Inr (map (\<lambda>c. basis_row (nat n) (nat (sint c mod n))) ids))"
  using assms by (auto simp add: one_hot_encoded_Some list_all_iff)

theorem one_hot_encoded_index_range_witness:
  "(0::int) \<le> 10
   \<and> one_hot_encoded [3, 10] (Some 10) = Inl IndexError
   \<and> one_hot_encoded [- 11] (Some 10) = Inl IndexError
   \<and> one_hot_encoded [9223372036854775807] (Some 10) = Inl IndexError
   \<and> one_hot_encoded [3, - 1] (Some 10) = Inr [basis_row 10 3, basis_row 10 9]"
  using one_hot_encoded_index_range[of 10 "[3, 10]"]
    one_hot_encoded_index_range[of 10 "[- 11]"]
    one_hot_encoded_index_range[of 10 "[9223372036854775807]"]
    one_hot_encoded_index_range[of 10 "[3, - 1]"]
  by simp

text \<open>
  The class number \<open>-1\<close> with ten classes raises nothing: it yields the one-hot row of the
  class 9.
\<close>

theorem one_hot_encoded_negative_id_counterexample:
  "one_hot_encoded [- 1] (Some 10) = Inr [[0, 0, 0, 0, 0, 0, 0, 0, 0, 1]]"
  by (simp add: one_hot_encoded_Some basis_row_def upt_rec eval_nat_numeral)

text \<open>
  C3. With \<open>num_classes=None\<close> the class count is \<open>max(class_ids) - 1\<close>, computed on \<open>int64\<close>
  values. For the class numbers \<open>[0, 1, 2]\<close> that count is 1, and the call raises
  \<open>IndexError\<close>.
\<close>

theorem one_hot_encoded_derived_num_classes:
  "(class_ids \<noteq> [] \<longrightarrow>
      one_hot_encoded class_ids None
        = one_hot_encoded class_ids
            (Some (sint (word_of_int (Max (sint ` set class_ids)) - 1 :: int64))))
   \<and> (class_ids \<noteq> [] \<and> - (2 ^ 63) < Max (sint ` set class_ids) \<longrightarrow>
      one_hot_encoded class_ids None
        = one_hot_encoded class_ids (Some (Max (sint ` set class_ids) - 1)))
   \<and> one_hot_encoded [0, 1, 2] None = one_hot_encoded [0, 1, 2] (Some 1)
   \<and> one_hot_encoded [0, 1, 2] None = Inl IndexError"
proof -
  have gen: "one_hot_encoded class_ids None
        = one_hot_encoded class_ids
            (Some (sint (word_of_int (Max (sint ` set class_ids)) - 1 :: int64)))"
    if "class_ids \<noteq> []"
  proof -
    from np_max_Max[OF that] obtain mx where
      mx: "np_max class_ids = Inr mx" "sint mx = Max (sint ` set class_ids)" by blast
    have "word_of_int (sint mx) = mx" by simp
    with mx(2) have "word_of_int (Max (sint ` set class_ids)) = mx" by simp
    with mx(1) show ?thesis by (simp add: one_hot_encoded_def)
  qed
  have plain: "sint (word_of_int m - 1 :: int64) = m - 1"
    if "- (2 ^ 63) < m" "m < 2 ^ 63" for m :: int
  proof -
    have "sint (word_of_int m - 1 :: int64) = (m - 1 + 2 ^ 63) mod 2 ^ 64 - 2 ^ 63"
      using int_word_sint[of "m - 1", where ?'a = 64] by simp
    also have "(m - 1 + 2 ^ 63) mod 2 ^ 64 = m - 1 + (2 ^ 63 :: int)"
      using that by (intro mod_pos_pos_trivial) simp_all
    also have "m - 1 + 2 ^ 63 - 2 ^ 63 = m - 1" by simp
    finally show ?thesis .
  qed
  have lt: "Max (sint ` set class_ids) < 2 ^ 63" if "class_ids \<noteq> []"
  proof -
    from np_max_Max[OF that] obtain mx :: int64 where "sint mx = Max (sint ` set class_ids)"
      by blast
    then show ?thesis using sint_lt[of mx] by simp
  qed
  have c3: "one_hot_encoded [0, 1, 2] None = one_hot_encoded [0, 1, 2] (Some 1)"
    by (simp add: one_hot_encoded_def np_max_def smax_def)
  then have c4: "one_hot_encoded [0, 1, 2] None = Inl IndexError"
    by (simp add: one_hot_encoded_Some)
  show ?thesis using gen plain lt c3 c4 by simp
qed

theorem one_hot_encoded_derived_num_classes_witness:
  "[0, 1, 2] \<noteq> ([] :: int64 list)
   \<and> Max (sint ` set [0, 1, 2 :: int64]) - 1 = 1
   \<and> one_hot_encoded [0, 1, 2] None
       = one_hot_encoded [0, 1, 2] (Some (Max (sint ` set [0, 1, 2 :: int64]) - 1))"
  using one_hot_encoded_derived_num_classes[of "[0, 1, 2]"] by simp

text \<open>
  C7. When the files read hold valid shards (byte pixels, as many labels as images, every
  label a class number from 0 to 9), every split returned by \<open>load_training_data\<close> or
  \<open>load_test_data\<close> satisfies the invariant: images, class numbers and one-hot rows have
  one length; every class number lies from 0 to 9 and row \<open>i\<close> has its 1 in the column
  \<open>cls[i]\<close> and 0 elsewhere; every pixel lies between 0 and 1; every image has the extents
  \<open>[32, 32, 3]\<close>. The axes are \<open>[N, height, width, channels]\<close>: image \<open>j\<close> of the test split
  is image \<open>j\<close> of the test shard's channel-major buffer with the channel axis last, and
  every image of the training split is such an image of a training shard or the zero image
  of the allocation.
\<close>

theorem split_invariants:
  assumes "valid_files fs (''test_batch'' # map batch_filename [0..<num_files_train])"
  shows "(load_training_data fs = Inr (images, cls, labels) \<longrightarrow>
            split_invariant images cls labels
            \<and> list_all (from_shards
                  (shard_buffers fs (map batch_filename [0..<num_files_train]))) images)
       \<and> (load_test_data fs = Inr (images', cls', labels') \<longrightarrow>
            split_invariant images' cls' labels'
            \<and> list_all (\<lambda>raw. list_all (\<lambda>j. channel_last raw j (images' ! j))
                                   [0..<length images'])
                  (shard_buffers fs [''test_batch'']))"
proof (rule conjI; rule impI)
  let ?names = "map batch_filename [0..<num_files_train]"
  let ?P = "\<lambda>im. image_shape 32 32 3 im \<and> pixels_in_unit im
                 \<and> from_shards (shard_buffers fs ?names) im"
  let ?Q = "\<lambda>c :: int64. 0 \<le> sint c \<and> sint c < 10"
  assume res: "load_training_data fs = Inr (images, cls, labels)"
  then obtain
    tl: "train_loop fs [0..<num_files_train] (replicate num_images_train zero_image)
           (replicate num_images_train 0) 0 = Inr (images, cls)"
    and oh: "one_hot_encoded cls (Some num_classes) = Inr labels"
    by (auto simp add: load_training_data_def Let_def split: sum.splits prod.splits)
  have valid: "valid_files fs [batch_filename i]" if "i \<in> set [0..<num_files_train]" for i
    using assms that by (simp add: valid_files_def list_all_iff)
  have zero: "list_all ?P (replicate num_images_train zero_image)"
    using zero_image_ok by (simp add: list_all_replicate from_shards_def)
  have p: "list_all ?P images"
  proof (rule train_loop_pred[OF _ zero tl])
    fix i im cl
    assume i: "i \<in> set [0..<num_files_train]"
      and ld: "priv_load_data fs (batch_filename i) = Inr (im, cl)"
    from i have "batch_filename i \<in> set ?names" by simp
    from priv_load_data_valid[OF valid[OF i] ld] loaded_from_shards[OF ld this]
    show "list_all ?P im" by (simp add: list_all_iff)
  qed
  have q: "list_all ?Q cls"
  proof (rule train_loop_pred_cls[OF _ _ tl])
    fix i im cl
    assume i: "i \<in> set [0..<num_files_train]"
      and ld: "priv_load_data fs (batch_filename i) = Inr (im, cl)"
    from priv_load_data_valid[OF valid[OF i] ld] show "list_all ?Q cl" by simp
  next
    show "list_all ?Q (replicate num_images_train 0)" by (simp add: list_all_replicate)
  qed
  have rows: "labels ! i = basis_row 10 (nat (sint (cls ! i)))" if "i < length cls" for i
  proof -
    from q that have "0 \<le> sint (cls ! i)" "sint (cls ! i) < 10"
      by (simp_all add: list_all_length)
    then have "sint (cls ! i) mod 10 = sint (cls ! i)" by simp
    with one_hot_encoded_rows[OF oh] that show ?thesis by simp
  qed
  from p q rows load_training_data_lengths[OF res]
  show "split_invariant images cls labels
        \<and> list_all (from_shards (shard_buffers fs ?names)) images"
    by (auto simp add: split_invariant_def list_all_iff)
next
  let ?Q = "\<lambda>c :: int64. 0 \<le> sint c \<and> sint c < 10"
  assume res: "load_test_data fs = Inr (images', cls', labels')"
  then obtain
    ld: "priv_load_data fs ''test_batch'' = Inr (images', cls')"
    and oh: "one_hot_encoded cls' (Some num_classes) = Inr labels'"
    by (auto simp add: load_test_data_def split: sum.splits prod.splits if_splits)
  from assms have v: "valid_files fs [''test_batch'']" by (simp add: valid_files_def)
  note pv = priv_load_data_valid[OF v ld]
  have rows: "labels' ! i = basis_row 10 (nat (sint (cls' ! i)))" if "i < length cls'" for i
  proof -
    from pv that have "0 \<le> sint (cls' ! i)" "sint (cls' ! i) < 10"
      by (simp_all add: list_all_length)
    then have "sint (cls' ! i) mod 10 = sint (cls' ! i)" by simp
    with one_hot_encoded_rows[OF oh] that show ?thesis by simp
  qed
  from pv rows one_hot_encoded_rows[OF oh] loaded_test_buffer[OF ld]
  show "split_invariant images' cls' labels'
        \<and> list_all (\<lambda>raw. list_all (\<lambda>j. channel_last raw j (images' ! j))
                               [0..<length images'])
              (shard_buffers fs [''test_batch''])"
    by (auto simp add: split_invariant_def list_all_iff)
qed

theorem split_invariants_witness:
  "valid_files fs_ab (''test_batch'' # map batch_filename [0..<num_files_train])
   \<and> load_training_data fs_ab
       = Inr (map const_image [1, 2, 10, 20, 30] @ replicate 49995 zero_image,
              [3, 4, 5, 6, 7] @ replicate 49995 0,
              map (basis_row 10) [3, 4, 5, 6, 7] @ replicate 49995 (basis_row 10 0))
   \<and> split_invariant (map const_image [1, 2, 10, 20, 30] @ replicate 49995 zero_image)
         ([3, 4, 5, 6, 7] @ replicate 49995 0)
         (map (basis_row 10) [3, 4, 5, 6, 7] @ replicate 49995 (basis_row 10 0))
   \<and> list_all (from_shards (shard_buffers fs_ab (map batch_filename [0..<num_files_train])))
         (map const_image [1, 2, 10, 20, 30] @ replicate 49995 zero_image)
   \<and> load_test_data fs_ab = Inr ([const_image 7], [1], [basis_row 10 1])
   \<and> split_invariant [const_image 7] [1] [basis_row 10 1]
   \<and> list_all (\<lambda>raw. channel_last raw 0 (const_image 7)) (shard_buffers fs_ab [''test_batch''])"
proof -
  note t = split_invariants[OF valid_files_fs_ab]
  from t[THEN conjunct1, THEN mp, OF fs_ab_train]
  have a: "split_invariant (map const_image [1, 2, 10, 20, 30] @ replicate 49995 zero_image)
         ([3, 4, 5, 6, 7] @ replicate 49995 0)
         (map (basis_row 10) [3, 4, 5, 6, 7] @ replicate 49995 (basis_row 10 0))"
    and b: "list_all (from_shards (shard_buffers fs_ab (map batch_filename [0..<num_files_train])))
         (map const_image [1, 2, 10, 20, 30] @ replicate 49995 zero_image)"
    by blast+
  from t[THEN conjunct2, THEN mp, OF fs_ab_test]
  have c: "split_invariant [const_image 7] [1] [basis_row 10 1]"
    and d: "list_all (\<lambda>raw. list_all (\<lambda>j. channel_last raw j ([const_image 7] ! j))
                                [0..<length [const_image 7]])
              (shard_buffers fs_ab [''test_batch''])"
    by blast+
  from d have e: "list_all (\<lambda>raw. channel_last raw 0 (const_image 7))
                    (shard_buffers fs_ab [''test_batch''])"
    by simp
  from valid_files_fs_ab fs_ab_train fs_ab_test a b c e show ?thesis by (intro conjI)
qed

text \<open>
  C10. Whenever \<open>load_training_data\<close> returns, its three arrays have 50000 entries. When the
  five shards load, each with as many labels as images and class numbers the encoder
  accepts, and together hold fewer than 50000 images, the call returns, and every entry of
  the image array and of the class-number array past the images supplied is zero.
\<close>

theorem load_training_data_fixed_size:
  "(load_training_data fs = Inr (images, cls, labels) \<longrightarrow>
      length images = 50000 \<and> length cls = 50000 \<and> length labels = 50000)
   \<and> (map (\<lambda>i. priv_load_data fs (batch_filename i)) [0..<num_files_train] = map Inr bs
       \<and> list_all (\<lambda>(im, cl). length cl = length im
              \<and> list_all (\<lambda>c. - num_classes \<le> sint c \<and> sint c < num_classes) cl) bs
       \<and> sum_list (map (\<lambda>p. length (fst p)) bs) < 50000
       \<longrightarrow> (\<exists>images' cls' labels'.
              load_training_data fs = Inr (images', cls', labels')
              \<and> length images' = 50000 \<and> length cls' = 50000
              \<and> (\<forall>i. sum_list (map (\<lambda>p. length (fst p)) bs) \<le> i \<and> i < 50000 \<longrightarrow>
                    images' ! i = zero_image \<and> cls' ! i = 0)))"
proof (rule conjI; rule impI)
  assume "load_training_data fs = Inr (images, cls, labels)"
  from load_training_data_lengths[OF this]
  show "length images = 50000 \<and> length cls = 50000 \<and> length labels = 50000" .
next
  let ?t = "sum_list (map (\<lambda>p. length (fst p)) bs)"
  assume h: "map (\<lambda>i. priv_load_data fs (batch_filename i)) [0..<num_files_train] = map Inr bs
       \<and> list_all (\<lambda>(im, cl). length cl = length im
              \<and> list_all (\<lambda>c. - num_classes \<le> sint c \<and> sint c < num_classes) cl) bs
       \<and> ?t < 50000"
  have cap: "num_images_train = 50000"
    by (simp add: num_images_train_def num_files_train_def images_per_file_def)
  from h have le: "?t \<le> num_images_train" by (simp add: cap)
  note res = load_training_data_merged[OF conjunct1[OF h] conjunct1[OF conjunct2[OF h]] le]
  have li: "length (concat (map fst bs)) = ?t"
    by (simp add: length_concat comp_def)
  have "length (concat (map snd bs)) = sum_list (map (\<lambda>p. length (snd p)) bs)"
    by (simp add: length_concat comp_def)
  also have "\<dots> = ?t"
    using h by (intro arg_cong[where f = sum_list] map_cong) (auto simp add: list_all_iff)
  finally have lc: "length (concat (map snd bs)) = ?t" .
  show "\<exists>images' cls' labels'.
          load_training_data fs = Inr (images', cls', labels')
          \<and> length images' = 50000 \<and> length cls' = 50000
          \<and> (\<forall>i. ?t \<le> i \<and> i < 50000 \<longrightarrow> images' ! i = zero_image \<and> cls' ! i = 0)"
    unfolding res using h li lc by (auto simp add: cap nth_append)
qed

theorem load_training_data_fixed_size_witness:
  "(\<exists>images cls labels.
      load_training_data fs_ab = Inr (images, cls, labels)
      \<and> length images = 50000 \<and> length cls = 50000 \<and> length labels = 50000
      \<and> images ! 5 = zero_image \<and> cls ! 5 = 0
      \<and> images ! 49999 = zero_image \<and> cls ! 49999 = 0)"
proof -
  let ?bs = "[(map const_image [1, 2], [3, 4 :: int64]), (map const_image [10, 20, 30], [5, 6, 7]),
              (map const_image [], []), (map const_image [], []), (map const_image [], [])]"
  have h2: "list_all (\<lambda>(im, cl). length cl = length im
              \<and> list_all (\<lambda>c. - num_classes \<le> sint c \<and> sint c < num_classes) cl) ?bs"
    by (simp add: num_classes_def)
  have h3: "sum_list (map (\<lambda>p. length (fst p)) ?bs) < 50000" by simp
  have t: "sum_list (map (\<lambda>p. length (fst p)) ?bs) = 5" by simp
  from load_training_data_fixed_size[of fs_ab _ _ _ ?bs] fs_ab_batches h2 h3
  obtain images cls labels where
    r: "load_training_data fs_ab = Inr (images, cls, labels)"
    "length images = 50000" "length cls = 50000"
    "\<forall>i. sum_list (map (\<lambda>p. length (fst p)) ?bs) \<le> i \<and> i < 50000 \<longrightarrow>
        images ! i = zero_image \<and> cls ! i = 0"
    by blast
  from load_training_data_fixed_size[of fs_ab images cls labels ?bs] r(1)
  have "length labels = 50000" by blast
  moreover from r(4) have "images ! 5 = zero_image \<and> cls ! 5 = 0" unfolding t by simp
  moreover from r(4) have "images ! 49999 = zero_image \<and> cls ! 49999 = 0" unfolding t by simp
  ultimately show ?thesis using r by blast
qed

text \<open>
  C6. When the five training shards load, each with as many labels as images and class
  numbers the encoder accepts, and hold at most 50000 images together,
  \<open>load_training_data\<close> returns arrays of 50000 entries that begin with the shards' images
  (and labels) concatenated in shard order, each shard in its own order, followed by zeros:
  the images of shard \<open>k\<close> stand at the offset that is the sum of the image counts of the
  shards before it. With 2 images in the first shard and 3 in the second, entries
  \<open>[0:2]\<close> are the first shard's images and \<open>[2:5]\<close> the second's.
\<close>

theorem load_training_data_concatenates:
  assumes "map (\<lambda>i. priv_load_data fs (batch_filename i)) [0..<num_files_train] = map Inr bs"
    and "list_all (\<lambda>(im, cl). length cl = length im
            \<and> list_all (\<lambda>c. - num_classes \<le> sint c \<and> sint c < num_classes) cl) bs"
    and "sum_list (map (\<lambda>p. length (fst p)) bs) \<le> 50000"
  shows "\<exists>images cls labels.
           load_training_data fs = Inr (images, cls, labels)
           \<and> length images = 50000
           \<and> images = concat (map fst bs)
                @ replicate (50000 - sum_list (map (\<lambda>p. length (fst p)) bs)) zero_image
           \<and> cls = concat (map snd bs)
                @ replicate (50000 - sum_list (map (\<lambda>p. length (fst p)) bs)) 0
           \<and> (\<forall>k<length bs.
                 take (length (fst (bs ! k)))
                   (drop (sum_list (map (\<lambda>p. length (fst p)) (take k bs))) images)
                   = fst (bs ! k))"
proof -
  let ?t = "sum_list (map (\<lambda>p. length (fst p)) bs)"
  have cap: "num_images_train = 50000"
    by (simp add: num_images_train_def num_files_train_def images_per_file_def)
  from assms(3) have le: "?t \<le> num_images_train" by (simp add: cap)
  note res = load_training_data_merged[OF assms(1,2) le]
  let ?images = "concat (map fst bs) @ replicate (50000 - ?t) zero_image"
  have li: "length (concat (map fst bs)) = ?t"
    by (simp add: length_concat comp_def)
  have len: "length ?images = 50000" using assms(3) li by simp
  have sl: "take (length (fst (bs ! k)))
              (drop (sum_list (map (\<lambda>p. length (fst p)) (take k bs))) ?images) = fst (bs ! k)"
    if "k < length bs" for k
    using concat_slice[of k "map fst bs" "replicate (50000 - ?t) zero_image"] that
    by (simp add: take_map comp_def)
  show ?thesis
    unfolding res cap using len sl by simp
qed

theorem load_training_data_concatenates_witness:
  "\<exists>images cls labels.
     load_training_data fs_ab = Inr (images, cls, labels)
     \<and> length images = 50000
     \<and> take 2 images = map const_image [1, 2]
     \<and> take 3 (drop 2 images) = map const_image [10, 20, 30]
     \<and> take 5 cls = [3, 4, 5, 6, 7]"
proof -
  let ?bs = "[(map const_image [1, 2], [3, 4 :: int64]), (map const_image [10, 20, 30], [5, 6, 7]),
              (map const_image [], []), (map const_image [], []), (map const_image [], [])]"
  have h2: "list_all (\<lambda>(im, cl). length cl = length im
              \<and> list_all (\<lambda>c. - num_classes \<le> sint c \<and> sint c < num_classes) cl) ?bs"
    by (simp add: num_classes_def)
  have h3: "sum_list (map (\<lambda>p. length (fst p)) ?bs) \<le> 50000" by simp
  from load_training_data_concatenates[OF fs_ab_batches h2 h3]
  obtain images cls labels where
    r: "load_training_data fs_ab = Inr (images, cls, labels)"
    "length images = 50000"
    "cls = concat (map snd ?bs)
         @ replicate (50000 - sum_list (map (\<lambda>p. length (fst p)) ?bs)) 0"
    "\<forall>k<length ?bs.
        take (length (fst (?bs ! k)))
          (drop (sum_list (map (\<lambda>p. length (fst p)) (take k ?bs))) images) = fst (?bs ! k)"
    by blast
  from r(4)[rule_format, of 0] have a: "take 2 images = map const_image [1, 2]"
    by (simp add: numeral_2_eq_2)
  from r(4)[rule_format, of 1] have b: "take 3 (drop 2 images) = map const_image [10, 20, 30]"
    by (simp add: numeral_2_eq_2 numeral_3_eq_3)
  from r(3) have c: "take 5 cls = [3, 4, 5, 6, 7]" by simp
  from r(1,2) a b c show ?thesis by blast
qed

text \<open>
  With 2 images in the first shard and 3 in the second (and none in the other three), the
  merged split has 50000 images, not 5.
\<close>

theorem load_training_data_five_images_counterexample:
  "load_training_data fs_ab
     = Inr (map const_image [1, 2, 10, 20, 30] @ replicate 49995 zero_image,
            [3, 4, 5, 6, 7] @ replicate 49995 0,
            map (basis_row 10) [3, 4, 5, 6, 7] @ replicate 49995 (basis_row 10 0))
   \<and> length (map const_image [1, 2, 10, 20, 30] @ replicate 49995 zero_image) = 50000
   \<and> length (map const_image [1, 2, 10, 20, 30] @ replicate 49995 zero_image) \<noteq> 5"
  using fs_ab_train by simp




text \<open>
  C8. Let the two splits and the class names load. With the preview flag set, \<open>load_data\<close>
  calls the visualization with the first 9 training images, the class names and the first
  9 class numbers; if that call returns, \<open>load_data\<close> returns the class names and the
  dataset of the two splits; if it raises, \<open>load_data\<close> raises the same error. Without the
  flag the visualization is not called and the same value is returned.
\<close>

theorem load_data_preview:
  assumes "load_training_data fs = Inr (images_train, cls_train, labels_train)"
    and "load_test_data fs = Inr (images_test, cls_test, labels_test)"
    and "load_class_names fs = Inr class_names"
    and "result = (class_names,
           \<lparr>train = \<lparr>s_images = images_train, s_cls = cls_train, s_labels = labels_train\<rparr>,
            test = \<lparr>s_images = images_test, s_cls = cls_test, s_labels = labels_test\<rparr>\<rparr>)"
  shows "(plot_images (take 9 images_train) class_names (take 9 cls_train) = Inr ()
            \<longrightarrow> load_data fs plot_images True = Inr result)
       \<and> (plot_images (take 9 images_train) class_names (take 9 cls_train) = Inl e
            \<longrightarrow> load_data fs plot_images True = Inl e)
       \<and> load_data fs plot_images False = Inr result"
  using assms by (simp add: load_data_def Let_def)

theorem load_data_preview_witness:
  "load_data fs_ab silent_plot True
     = Inr (cifar_names,
            \<lparr>train = \<lparr>s_images = map const_image [1, 2, 10, 20, 30] @ replicate 49995 zero_image,
                      s_cls = [3, 4, 5, 6, 7] @ replicate 49995 0,
                      s_labels = map (basis_row 10) [3, 4, 5, 6, 7]
                                   @ replicate 49995 (basis_row 10 0)\<rparr>,
             test = \<lparr>s_images = [const_image 7], s_cls = [1], s_labels = [basis_row 10 1]\<rparr>\<rparr>)
   \<and> load_data fs_ab failing_plot True = Inl RuntimeError
   \<and> load_data fs_ab failing_plot False
     = Inr (cifar_names,
            \<lparr>train = \<lparr>s_images = map const_image [1, 2, 10, 20, 30] @ replicate 49995 zero_image,
                      s_cls = [3, 4, 5, 6, 7] @ replicate 49995 0,
                      s_labels = map (basis_row 10) [3, 4, 5, 6, 7]
                                   @ replicate 49995 (basis_row 10 0)\<rparr>,
             test = \<lparr>s_images = [const_image 7], s_cls = [1], s_labels = [basis_row 10 1]\<rparr>\<rparr>)"
proof -
  note t = load_data_preview[OF fs_ab_train fs_ab_test fs_ab_names refl]
  have s: "silent_plot (take 9 (map const_image [1, 2, 10, 20, 30] @ replicate 49995 zero_image))
             cifar_names (take 9 ([3, 4, 5, 6, 7] @ replicate 49995 0)) = Inr ()"
    by (simp only: silent_plot_def)
  have f: "failing_plot (take 9 (map const_image [1, 2, 10, 20, 30] @ replicate 49995 zero_image))
             cifar_names (take 9 ([3, 4, 5, 6, 7] @ replicate 49995 0)) = Inl RuntimeError"
    by (simp only: failing_plot_def)
  from t[where plot_images = silent_plot, THEN conjunct1, THEN mp, OF s]
    t[where plot_images = failing_plot and e = RuntimeError, THEN conjunct2, THEN conjunct1,
      THEN mp, OF f]
    t[where plot_images = failing_plot, THEN conjunct2, THEN conjunct2]
  show ?thesis by (intro conjI)
qed

text \<open>
  The splits and the class names of \<open>fs_ab\<close> load; the visualization raises, and so does
  \<open>load_data\<close>: no class names and no dataset are returned.
\<close>

theorem load_data_preview_failure_counterexample:
  "load_data fs_ab failing_plot True = Inl RuntimeError"
  by (simp add: load_data_def fs_ab_train fs_ab_test fs_ab_names failing_plot_def)

text \<open>
  C9. When the metadata file cannot be opened, \<open>load_class_names\<close> raises \<open>IOError\<close>; when
  it cannot be deserialized, \<open>UnpicklingError\<close>. In both cases \<open>load_data\<close> raises as well:
  it returns no dataset, whatever the preview flag and the visualization.
\<close>

theorem load_class_names_unavailable:
  assumes "fs (DATA_PATH @ ''batches.meta'') = None
         \<or> fs (DATA_PATH @ ''batches.meta'') = Some Corrupt"
  shows "load_class_names fs
           = Inl (if fs (DATA_PATH @ ''batches.meta'') = None then IOError else UnpicklingError)
       \<and> isl (load_data fs plot_images show_example_images)
       \<and> (load_training_data fs = Inr tr \<and> load_test_data fs = Inr te \<longrightarrow>
            load_data fs plot_images show_example_images
              = Inl (if fs (DATA_PATH @ ''batches.meta'') = None then IOError
                     else UnpicklingError))"
proof -
  let ?e = "if fs (DATA_PATH @ ''batches.meta'') = None then IOError else UnpicklingError"
  have n: "load_class_names fs = Inl ?e"
    using assms by (auto simp add: load_class_names_def priv_unpickle_def Let_def)
  then have "isl (load_data fs plot_images show_example_images)"
    by (simp add: load_data_def split: sum.splits prod.splits)
  moreover have "load_data fs plot_images show_example_images = Inl ?e"
    if "load_training_data fs = Inr tr" "load_test_data fs = Inr te"
    using that n by (simp add: load_data_def split: prod.splits)
  ultimately show ?thesis using n by blast
qed

theorem load_class_names_unavailable_witness:
  "fs_nometa (DATA_PATH @ ''batches.meta'') = None
   \<and> load_class_names fs_nometa = Inl IOError
   \<and> isl (load_data fs_nometa silent_plot True)
   \<and> load_data fs_nometa silent_plot True = Inl IOError"
proof -
  have m: "fs_nometa (DATA_PATH @ ''batches.meta'') = None" by (simp add: fs_nometa_def)
  then have h: "fs_nometa (DATA_PATH @ ''batches.meta'') = None
         \<or> fs_nometa (DATA_PATH @ ''batches.meta'') = Some Corrupt" by (rule disjI1)
  have b: "map (\<lambda>i. priv_load_data fs_nometa (batch_filename i)) [0..<num_files_train]
     = map Inr [(map const_image [1, 2], [3, 4]), (map const_image [10, 20, 30], [5, 6, 7]),
                (map const_image [], []), (map const_image [], []), (map const_image [], [])]"
    unfolding train_files
    by (simp add: batch_filenames priv_load_data_shard_of fs_nometa_def fs_ab_def DATA_PATH_def)
  have tr: "load_training_data fs_nometa
     = Inr (map const_image [1, 2, 10, 20, 30] @ replicate 49995 zero_image,
            [3, 4, 5, 6, 7] @ replicate 49995 0,
            map (basis_row 10) [3, 4, 5, 6, 7] @ replicate 49995 (basis_row 10 0))"
    using load_training_data_concat[OF b]
    by (simp add: num_images_train_def num_files_train_def images_per_file_def
        num_classes_def one_hot_encoded_Some list_all_replicate)
  have "priv_load_data fs_nometa ''test_batch'' = Inr (map const_image [7], [1])"
    by (rule priv_load_data_shard_of) (simp add: fs_nometa_def fs_ab_def DATA_PATH_def)
  then have te: "load_test_data fs_nometa = Inr ([const_image 7], [1], [basis_row 10 1])"
    by (simp add: load_test_data_def num_classes_def one_hot_encoded_Some)
  note t = load_class_names_unavailable[where fs = fs_nometa and plot_images = silent_plot
      and show_example_images = True, OF h]
  from t[THEN conjunct1] m have "load_class_names fs_nometa = Inl IOError" by simp
  moreover note t[THEN conjunct2, THEN conjunct1]
  moreover from t[THEN conjunct2, THEN conjunct2, THEN mp, OF conjI[OF tr te]] m
  have "load_data fs_nometa silent_plot True = Inl IOError" by simp
  ultimately show ?thesis using m by (intro conjI)
qed

end
